theory Spec2Isabelle
  imports Complex_Main "HOL-Library.AList"
begin

section \<open>Common data\<close>

text \<open>
  A JavaScript \<^verbatim>\<open>Error\<close> is its message. A JavaScript \<^verbatim>\<open>Map\<close> is an association list
  with distinct keys in insertion order: \<^verbatim>\<open>Map.set\<close> is \<open>AList.update\<close> (an existing key
  keeps its place, a new key goes last), \<^verbatim>\<open>Map.delete\<close> is \<open>AList.delete\<close>,
  \<^verbatim>\<open>Map.get\<close> is \<open>map_of\<close> and \<^verbatim>\<open>Map.keys\<close> is \<open>map fst\<close>.
\<close>

datatype error = Error string

text \<open>An error made by \<^verbatim>\<open>new Error(message)\<close> has the \<^verbatim>\<open>name\<close> property "Error".\<close>

definition errorName :: "error \<Rightarrow> string" where
  "errorName e = (case e of Error m \<Rightarrow> ''Error'')"

type_synonym key = string

section \<open>HeartbeatSystem (src/lib/heartbeatSystem.js)\<close>

text \<open>
  A callback is a function object, compared by identity: a number names it. A
  \<^verbatim>\<open>Set\<close> of callbacks is a list without duplicates in insertion order.
\<close>

type_synonym callback = nat

definition set_add :: "'a \<Rightarrow> 'a list \<Rightarrow> 'a list" where
  "set_add x xs = (if x \<in> set xs then xs else xs @ [x])"

definition set_delete :: "'a \<Rightarrow> 'a list \<Rightarrow> 'a list" where
  "set_delete x xs = removeAll x xs"

text \<open>
  \<^verbatim>\<open>new Date(x).getTime()\<close> is a number of milliseconds or \<^verbatim>\<open>NaN\<close>. A
  \<^verbatim>\<open>lastModified\<close> field is \<open>None\<close> when it is falsy (missing) and \<open>Some\<close> of its time
  value otherwise.
\<close>

datatype stamp = Millis int | NaN

fun stamp_gt :: "stamp \<Rightarrow> stamp \<Rightarrow> bool" where
  "stamp_gt (Millis a) (Millis b) = (a > b)"
| "stamp_gt _ _ = False"

record 'v entry =
  data :: 'v
  lastModified :: "stamp option"

datatype changeType = Created | Updated | Deleted

text \<open>
  The collaborator \<^verbatim>\<open>dbConnector\<close> as one call sees it: whether it is connected, and
  what \<^verbatim>\<open>readData(key)\<close> answers (\<open>Inl\<close> a rejection, \<open>Inr None\<close> for \<^verbatim>\<open>null\<close>).
\<close>

record 'v connector =
  isConnected :: bool
  readData :: "key \<Rightarrow> error + 'v entry option"

text \<open>
  The fields of the class, and two logs of what it does to the outside:
  \<open>readLog\<close> lists the keys passed to \<^verbatim>\<open>dbConnector.readData\<close>, \<open>delivered\<close> the calls
  of listener callbacks. \<open>intervalId\<close> is the armed \<^verbatim>\<open>setInterval\<close> timer, named by
  its period. \<open>pending\<close> holds the reads in flight: \<^verbatim>\<open>checkKeyForChanges\<close> is suspended at
  \<^verbatim>\<open>await this.dbConnector.readData(key)\<close> for each of them, with the answer it will get.
\<close>

record 'v heartbeat =
  pollingInterval :: rat
  isPolling :: bool
  intervalId :: "rat option"
  cache :: "(key \<times> 'v entry) list"
  listeners :: "(key \<times> callback list) list"
  lastPollTime :: "int option"
  readLog :: "key list"
  delivered :: "(callback \<times> key \<times> 'v option \<times> changeType) list"
  pending :: "(key \<times> (error + 'v entry option)) list"

definition newHeartbeat :: "rat option \<Rightarrow> 'v heartbeat" where
  "newHeartbeat cfg =
     \<lparr> pollingInterval = (case cfg of None \<Rightarrow> 2000 | Some p \<Rightarrow> if p = 0 then 2000 else p),
       isPolling = False, intervalId = None, cache = [], listeners = [],
       lastPollTime = None, readLog = [], delivered = [], pending = [] \<rparr>"

definition stopPolling :: "'v heartbeat \<Rightarrow> 'v heartbeat" where
  "stopPolling s =
     (if \<not> isPolling s then s else s\<lparr> isPolling := False, intervalId := None \<rparr>)"

definition notifyListeners ::
  "key \<Rightarrow> 'v option \<Rightarrow> changeType \<Rightarrow> 'v heartbeat \<Rightarrow> 'v heartbeat" where
  "notifyListeners k d ct s =
     (case map_of (listeners s) k of
        None \<Rightarrow> s
      | Some callbacks \<Rightarrow>
          s\<lparr> delivered := delivered s @ map (\<lambda>cb. (cb, k, d, ct)) callbacks \<rparr>)"

text \<open>\<^verbatim>\<open>JSON.stringify\<close> is the parameter \<open>js\<close>.\<close>

definition hasDataChanged ::
  "('v \<Rightarrow> string) \<Rightarrow> 'v entry option \<Rightarrow> 'v entry option \<Rightarrow> bool" where
  "hasDataChanged js cachedData currentData =
     (case (cachedData, currentData) of
        (Some c, Some cur) \<Rightarrow>
          (if (case (lastModified c, lastModified cur) of
                 (Some cachedTime, Some currentTime) \<Rightarrow> stamp_gt currentTime cachedTime
               | _ \<Rightarrow> False)
           then True
           else js (data c) \<noteq> js (data cur))
      | _ \<Rightarrow> False)"

text \<open>
  \<^verbatim>\<open>checkKeyForChanges\<close> in its two parts: the call of \<^verbatim>\<open>readData\<close>, and what runs when the
  answer is there. The cache is read after the \<^verbatim>\<open>await\<close>; a rejected read is caught and
  logged.
\<close>

definition issueRead :: "'v connector \<Rightarrow> key \<Rightarrow> 'v heartbeat \<Rightarrow> 'v heartbeat" where
  "issueRead db k s =
     s\<lparr> readLog := readLog s @ [k], pending := pending s @ [(k, readData db k)] \<rparr>"

definition handleAnswer ::
  "('v \<Rightarrow> string) \<Rightarrow> key \<Rightarrow> error + 'v entry option \<Rightarrow> 'v heartbeat \<Rightarrow> 'v heartbeat" where
  "handleAnswer js k answer s =
     (case answer of
        Inl err \<Rightarrow> s
      | Inr currentData \<Rightarrow>
          (case (currentData, map_of (cache s) k) of
             (None, None) \<Rightarrow> s
           | (None, Some cachedData) \<Rightarrow>
               notifyListeners k None Deleted (s\<lparr> cache := AList.delete k (cache s) \<rparr>)
           | (Some cur, None) \<Rightarrow>
               notifyListeners k (Some (data cur)) Created
                 (s\<lparr> cache := AList.update k
                        \<lparr> data = data cur, lastModified = lastModified cur \<rparr> (cache s) \<rparr>)
           | (Some cur, Some cachedData) \<Rightarrow>
               (if hasDataChanged js (Some cachedData) (Some cur)
                then notifyListeners k (Some (data cur)) Updated
                       (s\<lparr> cache := AList.update k
                              \<lparr> data = data cur, lastModified = lastModified cur \<rparr> (cache s) \<rparr>)
                else s)))"

text \<open>
  The \<open>n\<close>-th read in flight is answered: its \<^verbatim>\<open>checkKeyForChanges\<close> resumes. Reads may be
  answered in any order, and any call may come between a read and its answer.
\<close>

definition answerArrives :: "('v \<Rightarrow> string) \<Rightarrow> nat \<Rightarrow> 'v heartbeat \<Rightarrow> 'v heartbeat" where
  "answerArrives js n s =
     (if n < length (pending s)
      then handleAnswer js (fst (pending s ! n)) (snd (pending s ! n))
             (s\<lparr> pending := take n (pending s) @ drop (Suc n) (pending s) \<rparr>)
      else s)"

text \<open>
  \<^verbatim>\<open>checkKeyForChanges\<close> run to its end with nothing in between: the read, and its answer
  handled at once.
\<close>

definition checkKeyForChanges ::
  "('v \<Rightarrow> string) \<Rightarrow> 'v connector \<Rightarrow> key \<Rightarrow> 'v heartbeat \<Rightarrow> 'v heartbeat" where
  "checkKeyForChanges js db k s0 =
     handleAnswer js k (readData db k) (s0\<lparr> readLog := readLog s0 @ [k] \<rparr>)"

text \<open>
  One poll: it issues the reads of all watched keys before any answer is handled
  (\<^verbatim>\<open>keysToCheck.map(key => this.checkKeyForChanges(key))\<close> runs each call up to its
  \<^verbatim>\<open>await\<close>); the answers arrive later.
\<close>

definition poll ::
  "('v \<Rightarrow> string) \<Rightarrow> 'v connector \<Rightarrow> int \<Rightarrow> 'v heartbeat \<Rightarrow> 'v heartbeat" where
  "poll js db now s =
     (if \<not> isConnected db then stopPolling s
      else
        let s1 = s\<lparr> lastPollTime := Some now \<rparr>;
            keysToCheck = map fst (listeners s1)
        in if keysToCheck = [] then stopPolling s1
           else fold (issueRead db) keysToCheck s1)"

definition startPolling ::
  "('v \<Rightarrow> string) \<Rightarrow> 'v connector \<Rightarrow> int \<Rightarrow> 'v heartbeat \<Rightarrow> (error + unit) \<times> 'v heartbeat" where
  "startPolling js db now s =
     (if isPolling s then (Inr (), s)
      else if \<not> isConnected db then (Inl (Error ''Database not connected''), s)
      else (Inr (),
            poll js db now (s\<lparr> isPolling := True, intervalId := Some (pollingInterval s) \<rparr>)))"

text \<open>
  The callback argument is \<open>None\<close> when it is not a function. The unsubscribe closure
  that \<^verbatim>\<open>addListener\<close> returns is the key and the callback it will remove.
\<close>

definition addListener ::
  "('v \<Rightarrow> string) \<Rightarrow> 'v connector \<Rightarrow> int \<Rightarrow> key \<Rightarrow> callback option \<Rightarrow> 'v heartbeat
     \<Rightarrow> (error + key \<times> callback) \<times> 'v heartbeat" where
  "addListener js db now k cbo s =
     (case cbo of
        None \<Rightarrow> (Inl (Error ''Callback must be a function''), s)
      | Some cb \<Rightarrow>
          let ls = (if map_of (listeners s) k = None then AList.update k [] (listeners s)
                    else listeners s);
              cbs = (case map_of ls k of None \<Rightarrow> [] | Some c \<Rightarrow> c);
              s1 = s\<lparr> listeners := AList.update k (set_add cb cbs) ls \<rparr>
          in if \<not> isPolling s1
             then (case startPolling js db now s1 of
                     (Inl e, s2) \<Rightarrow> (Inl e, s2)
                   | (Inr u, s2) \<Rightarrow> (Inr (k, cb), s2))
             else (Inr (k, cb), s1))"

definition removeListener :: "key \<Rightarrow> callback \<Rightarrow> 'v heartbeat \<Rightarrow> 'v heartbeat" where
  "removeListener k cb s =
     (let s1 =
        (case map_of (listeners s) k of
           None \<Rightarrow> s
         | Some cbs \<Rightarrow>
             let cbs' = set_delete cb cbs;
                 ls = AList.update k cbs' (listeners s)
             in if length cbs' = 0
                then s\<lparr> listeners := AList.delete k ls, cache := AList.delete k (cache s) \<rparr>
                else s\<lparr> listeners := ls \<rparr>)
      in if length (listeners s1) = 0 then stopPolling s1 else s1)"

definition unsubscribe :: "key \<times> callback \<Rightarrow> 'v heartbeat \<Rightarrow> 'v heartbeat" where
  "unsubscribe h s = removeListener (fst h) (snd h) s"

text \<open>The argument is \<open>None\<close> when no key is passed; the empty string is falsy too.\<close>

definition removeAllListeners :: "key option \<Rightarrow> 'v heartbeat \<Rightarrow> 'v heartbeat" where
  "removeAllListeners ko s =
     (let s1 =
        (case ko of
           None \<Rightarrow> s\<lparr> listeners := [], cache := [] \<rparr>
         | Some k \<Rightarrow>
             if k = [] then s\<lparr> listeners := [], cache := [] \<rparr>
             else s\<lparr> listeners := AList.delete k (listeners s),
                      cache := AList.delete k (cache s) \<rparr>)
      in if length (listeners s1) = 0 then stopPolling s1 else s1)"

text \<open>The argument of \<^verbatim>\<open>setPollingInterval\<close>: a number, or a value of another type.\<close>

datatype jsarg = Number rat | NotANumber

definition setPollingInterval ::
  "('v \<Rightarrow> string) \<Rightarrow> 'v connector \<Rightarrow> int \<Rightarrow> jsarg \<Rightarrow> 'v heartbeat \<Rightarrow> (error + unit) \<times> 'v heartbeat" where
  "setPollingInterval js db now a s =
     (case a of
        NotANumber \<Rightarrow> (Inl (Error ''Polling interval must be a number >= 100ms''), s)
      | Number interval \<Rightarrow>
          if interval < 100
          then (Inl (Error ''Polling interval must be a number >= 100ms''), s)
          else
            let s1 = s\<lparr> pollingInterval := interval \<rparr>
            in if isPolling s1 then startPolling js db now (stopPolling s1)
               else (Inr (), s1))"

record status =
  st_isPolling :: bool
  st_pollingInterval :: rat
  listenerCount :: nat
  cacheSize :: nat
  st_lastPollTime :: "int option"
  watchedKeys :: "key list"

definition getStatus :: "'v heartbeat \<Rightarrow> status" where
  "getStatus s =
     \<lparr> st_isPolling = isPolling s, st_pollingInterval = pollingInterval s,
       listenerCount = length (listeners s), cacheSize = length (cache s),
       st_lastPollTime = lastPollTime s, watchedKeys = map fst (listeners s) \<rparr>"

definition destroy :: "'v heartbeat \<Rightarrow> 'v heartbeat" where
  "destroy s = removeAllListeners None (removeAllListeners None (stopPolling s))"

text \<open>
  The \<^verbatim>\<open>setInterval\<close> callback runs \<^verbatim>\<open>poll\<close>; a cleared timer never fires.
\<close>

definition intervalFires ::
  "('v \<Rightarrow> string) \<Rightarrow> 'v connector \<Rightarrow> int \<Rightarrow> 'v heartbeat \<Rightarrow> 'v heartbeat" where
  "intervalFires js db now s = (if intervalId s = None then s else poll js db now s)"

text \<open>
  The calls a client or the timer can make and the arrival of an answer, and a run of them
  from a state.
\<close>

datatype call =
    AddListener key "callback option"
  | RemoveListener key callback
  | RemoveAllListeners "key option"
  | SetPollingInterval jsarg
  | IntervalFires
  | AnswerArrives nat
  | Destroy

fun step ::
  "('v \<Rightarrow> string) \<Rightarrow> 'v connector \<times> int \<times> call \<Rightarrow> 'v heartbeat \<Rightarrow> 'v heartbeat" where
  "step js (db, now, AddListener k cbo) s = snd (addListener js db now k cbo s)"
| "step js (db, now, RemoveListener k cb) s = removeListener k cb s"
| "step js (db, now, RemoveAllListeners ko) s = removeAllListeners ko s"
| "step js (db, now, SetPollingInterval a) s = snd (setPollingInterval js db now a s)"
| "step js (db, now, IntervalFires) s = intervalFires js db now s"
| "step js (db, now, AnswerArrives n) s = answerArrives js n s"
| "step js (db, now, Destroy) s = destroy s"

definition run ::
  "('v \<Rightarrow> string) \<Rightarrow> ('v connector \<times> int \<times> call) list \<Rightarrow> 'v heartbeat \<Rightarrow> 'v heartbeat" where
  "run js calls s = fold (step js) calls s"

text \<open>
  The callbacks registered for a key, the calls that subscribe, and the invariant that no
  watcher has an empty callback set.
\<close>

definition callbacksOf :: "'v heartbeat \<Rightarrow> key \<Rightarrow> callback list" where
  "callbacksOf s k = (case map_of (listeners s) k of None \<Rightarrow> [] | Some cbs \<Rightarrow> cbs)"


fun subscribes_to :: "key \<Rightarrow> call \<Rightarrow> bool" where
  "subscribes_to k (AddListener k' (Some cb)) = (k' = k)"
| "subscribes_to k _ = False"

definition no_empty_watcher :: "'v heartbeat \<Rightarrow> bool" where
  "no_empty_watcher s = (\<forall>k. map_of (listeners s) k \<noteq> Some [])"

text \<open>
  The scenario of the specification: a connector that answers every read with the same
  record, and the state after the first listener on \<open>orders\<close> was added.
\<close>

definition orders_db :: "bool \<Rightarrow> string connector" where
  "orders_db up = \<lparr> isConnected = up,
      readData = (\<lambda>k. Inr (Some \<lparr> data = ''{status:new}'', lastModified = Some (Millis 1) \<rparr>)) \<rparr>"

definition watching_orders :: "string heartbeat" where
  "watching_orders = snd (addListener id (orders_db True) 0 ''orders'' (Some 7) (newHeartbeat None))"

text \<open>
  A removal while a read is in flight. Listeners on \<open>users\<close> and on \<open>orders\<close> are added,
  a tick reads both keys and both answers arrive, so both keys are cached; the next tick
  issues the reads of both keys again. While these are in flight the listener on \<open>orders\<close>
  is removed through its unsubscribe closure. Then the answer of the read of \<open>orders\<close>
  arrives. At last a new listener on \<open>orders\<close> is added, the timer fires and all answers
  arrive.
\<close>

definition watching_both :: "string heartbeat" where
  "watching_both =
     run id [(orders_db True, 0, AddListener ''users'' (Some 8)),
             (orders_db True, 1, AnswerArrives 0),
             (orders_db True, 2, AddListener ''orders'' (Some 7)),
             (orders_db True, 2000, IntervalFires),
             (orders_db True, 2001, AnswerArrives 0),
             (orders_db True, 2002, AnswerArrives 0),
             (orders_db True, 4000, IntervalFires)] (newHeartbeat None)"

definition unsubscribed_in_flight :: "string heartbeat" where
  "unsubscribed_in_flight = unsubscribe (''orders'', 7) watching_both"

definition answered_after_unsubscribe :: "string heartbeat" where
  "answered_after_unsubscribe =
     run id [(orders_db True, 4002, AnswerArrives 1)] unsubscribed_in_flight"

definition resubscribed_after_answer :: "string heartbeat" where
  "resubscribed_after_answer =
     run id [(orders_db True, 4003, AnswerArrives 0),
             (orders_db True, 5000, AddListener ''orders'' (Some 9)),
             (orders_db True, 6000, IntervalFires),
             (orders_db True, 6001, AnswerArrives 0),
             (orders_db True, 6002, AnswerArrives 0)] answered_after_unsubscribe"


section \<open>The cache of UltimateRealtimeStreamPackage (src/unnamed/part_003)\<close>

text \<open>
  A JavaScript number is an IEEE 754 double: a finite one is the rational it stands for.
  \<^verbatim>\<open>a + b\<close> and \<^verbatim>\<open>a * b\<close> give the double nearest to the exact result, a tie going to the
  even significand, and an infinity when that is beyond the largest double. \<open>bitLength n\<close>
  is the number of binary digits of \<open>n\<close>, \<open>floorLog2 x\<close> the exponent \<open>e\<close> with
  \<open>2\<^sup>e \<le> x < 2\<^sup>e\<^sup>+\<^sup>1\<close> for \<open>x > 0\<close>, and doubles in the binade of \<open>x\<close> are
  \<open>2\<^sup>e\<^sup>-\<^sup>5\<^sup>2\<close> apart (\<open>2\<^sup>-\<^sup>1\<^sup>0\<^sup>7\<^sup>4\<close> below the normal range).
\<close>

datatype jsnumber = Finite rat | Infinity | NegInfinity

function bitLength :: "int \<Rightarrow> nat" where
  "bitLength n = (if n \<le> 0 then 0 else Suc (bitLength (n div 2)))"
  by pat_completeness auto

termination bitLength
  by (relation "measure nat") auto

declare bitLength.simps [simp del]

definition floorLog2 :: "rat \<Rightarrow> int" where
  "floorLog2 x =
     (if 1 \<le> x then int (bitLength \<lfloor>x\<rfloor>) - 1
      else - int (bitLength (\<lceil>1 / x\<rceil> - 1)))"

definition pow2 :: "int \<Rightarrow> rat" where
  "pow2 e = (if 0 \<le> e then 2 ^ nat e else 1 / 2 ^ nat (- e))"

definition roundHalfEven :: "rat \<Rightarrow> int" where
  "roundHalfEven q =
     (let n = \<lfloor>q\<rfloor>; r = q - of_int n
      in if r < 1 / 2 then n
         else if 1 / 2 < r then n + 1
         else if even n then n else n + 1)"

text \<open>
  The nearest double: \<open>m\<close> is the significand in units of the spacing. The result is
  infinite from \<open>2\<^sup>1\<^sup>0\<^sup>2\<^sup>4\<close> on, which a number below it reaches when its significand rounds
  up to \<open>2\<^sup>5\<^sup>3\<close> in the last binade.
\<close>

definition roundDouble :: "rat \<Rightarrow> jsnumber" where
  "roundDouble x =
     (if x = 0 then Finite 0
      else
        let e = floorLog2 \<bar>x\<bar>;
            ulp = pow2 (max e (- 1022) - 52);
            m = roundHalfEven (\<bar>x\<bar> / ulp)
        in if 1024 \<le> e \<or> (e = 1023 \<and> m = 9007199254740992)
           then (if 0 < x then Infinity else NegInfinity)
           else Finite (if 0 < x then of_int m * ulp else - (of_int m * ulp)))"

text \<open>\<^verbatim>\<open>a * b\<close>, \<^verbatim>\<open>a + b\<close> and \<^verbatim>\<open>a > b\<close> on numbers; the left operand is finite.\<close>

definition times_number :: "rat \<Rightarrow> rat \<Rightarrow> jsnumber" where
  "times_number a b = roundDouble (a * b)"

definition plus_number :: "rat \<Rightarrow> jsnumber \<Rightarrow> jsnumber" where
  "plus_number a b =
     (case b of Finite y \<Rightarrow> roundDouble (a + y) | Infinity \<Rightarrow> Infinity | NegInfinity \<Rightarrow> NegInfinity)"

definition gt_number :: "rat \<Rightarrow> jsnumber \<Rightarrow> bool" where
  "gt_number a b = (case b of Finite y \<Rightarrow> y < a | Infinity \<Rightarrow> False | NegInfinity \<Rightarrow> True)"

text \<open>
  \<^verbatim>\<open>this.cache\<close> and \<^verbatim>\<open>this.cacheMetadata\<close> are two maps over the same keys. Times are
  milliseconds as \<^verbatim>\<open>Date.now()\<close> gives them, whole numbers below \<open>2\<^sup>5\<^sup>3\<close>; \<open>ttl\<close> is
  stored in milliseconds, as the number that \<^verbatim>\<open>ttl * 1000\<close> gave.
\<close>

record metadata =
  timestamp :: rat
  ttl :: jsnumber
  accessCount :: nat
  lastAccess :: rat

record 'v pkg_cache =
  entries :: "(key \<times> 'v) list"
  cacheMetadata :: "(key \<times> metadata) list"

record cache_config =
  enableCache :: bool
  maxCacheSize :: nat
  cacheTTL :: rat

definition emptyCache :: "'v pkg_cache" where
  "emptyCache = \<lparr> entries = [], cacheMetadata = [] \<rparr>"

text \<open>
  The scan of \<^verbatim>\<open>evictOldestCacheEntry\<close>: the pair \<^verbatim>\<open>(oldestKey, oldestTime)\<close> starts as
  \<^verbatim>\<open>(null, Date.now())\<close> and moves to an entry whose \<^verbatim>\<open>lastAccess\<close> is strictly
  smaller.
\<close>

definition oldestScan :: "rat \<Rightarrow> (key \<times> metadata) list \<Rightarrow> key option \<times> rat" where
  "oldestScan now ms =
     fold (\<lambda>km acc. if lastAccess (snd km) < snd acc then (Some (fst km), lastAccess (snd km)) else acc)
       ms (None, now)"

definition evictOldestCacheEntry :: "rat \<Rightarrow> 'v pkg_cache \<Rightarrow> 'v pkg_cache" where
  "evictOldestCacheEntry now s =
     (case fst (oldestScan now (cacheMetadata s)) of
        None \<Rightarrow> s
      | Some oldestKey \<Rightarrow>
          if oldestKey = [] then s
          else s\<lparr> entries := AList.delete oldestKey (entries s),
                   cacheMetadata := AList.delete oldestKey (cacheMetadata s) \<rparr>)"

text \<open>
  \<^verbatim>\<open>updateCache(key, data, options)\<close>; \<open>optTTL\<close> is \<^verbatim>\<open>options.cacheTTL\<close>, which gives
  way to \<^verbatim>\<open>config.cacheTTL\<close> when it is missing or zero.
\<close>

definition updateCache ::
  "cache_config \<Rightarrow> rat \<Rightarrow> key \<Rightarrow> 'v \<Rightarrow> rat option \<Rightarrow> 'v pkg_cache \<Rightarrow> 'v pkg_cache" where
  "updateCache cfg now k d optTTL s =
     (if \<not> enableCache cfg then s
      else
        let t = (case optTTL of None \<Rightarrow> cacheTTL cfg | Some x \<Rightarrow> if x = 0 then cacheTTL cfg else x);
            s1 = (if length (entries s) \<ge> maxCacheSize cfg then evictOldestCacheEntry now s else s)
        in s1\<lparr> entries := AList.update k d (entries s1),
                cacheMetadata := AList.update k
                  \<lparr> timestamp = now, ttl = times_number t 1000, accessCount = 1, lastAccess = now \<rparr>
                  (cacheMetadata s1) \<rparr>)"

definition getFromCache :: "rat \<Rightarrow> key \<Rightarrow> 'v pkg_cache \<Rightarrow> 'v option \<times> 'v pkg_cache" where
  "getFromCache now k s =
     (if map_of (entries s) k = None then (None, s)
      else
        case map_of (cacheMetadata s) k of
          None \<Rightarrow> (map_of (entries s) k, s)
        | Some md \<Rightarrow>
            if gt_number now (plus_number (timestamp md) (ttl md))
            then (None, s\<lparr> entries := AList.delete k (entries s),
                            cacheMetadata := AList.delete k (cacheMetadata s) \<rparr>)
            else (map_of (entries s) k,
                  s\<lparr> cacheMetadata := AList.update k
                        (md\<lparr> accessCount := accessCount md + 1, lastAccess := now \<rparr>)
                        (cacheMetadata s) \<rparr>))"

definition cleanupExpiredCache :: "rat \<Rightarrow> 'v pkg_cache \<Rightarrow> 'v pkg_cache" where
  "cleanupExpiredCache now s =
     fold (\<lambda>km c. if gt_number now (plus_number (timestamp (snd km)) (ttl (snd km)))
                   then c\<lparr> entries := AList.delete (fst km) (entries c),
                            cacheMetadata := AList.delete (fst km) (cacheMetadata c) \<rparr>
                   else c)
       (cacheMetadata s) s"

text \<open>
  A burst of writes: distinct keys written one after the other within one millisecond,
  with the smallest capacity \<^verbatim>\<open>validateConfig\<close> accepts.
\<close>

definition burst_config :: cache_config where
  "burst_config = \<lparr> enableCache = True, maxCacheSize = 100, cacheTTL = 300 \<rparr>"

definition burst_keys :: "nat \<Rightarrow> key list" where
  "burst_keys n = map (\<lambda>i. replicate (Suc i) CHR ''k'') [0..<n]"

definition burst :: "cache_config \<Rightarrow> rat \<Rightarrow> key list \<Rightarrow> nat pkg_cache \<Rightarrow> nat pkg_cache" where
  "burst cfg now ks s = fold (\<lambda>k. updateCache cfg now k 0 None) ks s"

text \<open>Every entry was last accessed at the given time or later.\<close>

definition fresh :: "rat \<Rightarrow> 'v pkg_cache \<Rightarrow> bool" where
  "fresh now s = (\<forall>km \<in> set (cacheMetadata s). now \<le> lastAccess (snd km))"




text \<open>
  Writes made one after the other, each with its own reading of the clock, and clock
  readings that advance strictly from one write to the next.
\<close>

definition writes ::
  "cache_config \<Rightarrow> (rat \<times> key \<times> 'v \<times> rat option) list \<Rightarrow> 'v pkg_cache \<Rightarrow> 'v pkg_cache" where
  "writes cfg ws s = fold (\<lambda>(now, k, d, optTTL). updateCache cfg now k d optTTL) ws s"

fun advancing :: "rat \<Rightarrow> rat list \<Rightarrow> bool" where
  "advancing t0 [] = True"
| "advancing t0 (t # ts) = (t0 < t \<and> advancing t ts)"

text \<open>
  The two maps hold the same keys in the same order, no key twice and none empty, and no
  entry was accessed later than \<open>t\<close>.
\<close>

definition cache_inv :: "rat \<Rightarrow> 'v pkg_cache \<Rightarrow> bool" where
  "cache_inv t s =
     (map fst (entries s) = map fst (cacheMetadata s)
      \<and> distinct (map fst (entries s))
      \<and> [] \<notin> set (map fst (entries s))
      \<and> (\<forall>km \<in> set (cacheMetadata s). lastAccess (snd km) \<le> t))"


section \<open>EdgeCaseHandler (src/lib/edgeCaseHandler.js)\<close>

subsection \<open>Strings\<close>

text \<open>
  \<^verbatim>\<open>String.prototype.toLowerCase\<close> on the ASCII letters, \<^verbatim>\<open>String.prototype.includes\<close>, and
  the decimal digits of a number in a template literal.
\<close>

definition toLowerChar :: "char \<Rightarrow> char" where
  "toLowerChar c =
     (case map_of (zip ''ABCDEFGHIJKLMNOPQRSTUVWXYZ'' ''abcdefghijklmnopqrstuvwxyz'') c of
        None \<Rightarrow> c
      | Some l \<Rightarrow> l)"

definition toLowerCase :: "string \<Rightarrow> string" where
  "toLowerCase s = map toLowerChar s"

fun startsWith :: "string \<Rightarrow> string \<Rightarrow> bool" where
  "startsWith s [] = True"
| "startsWith [] (p # ps) = False"
| "startsWith (c # cs) (p # ps) = (c = p \<and> startsWith cs ps)"

fun includesStr :: "string \<Rightarrow> string \<Rightarrow> bool" where
  "includesStr [] sub = (sub = [])"
| "includesStr (c # cs) sub = (startsWith (c # cs) sub \<or> includesStr cs sub)"

definition digit :: "nat \<Rightarrow> char" where
  "digit n = ''0123456789'' ! n"

fun string_of_nat :: "nat \<Rightarrow> string" where
  "string_of_nat n =
     (if n < 10 then [digit n] else string_of_nat (n div 10) @ [digit (n mod 10)])"

declare string_of_nat.simps [simp del]

subsection \<open>Data\<close>

text \<open>
  The configuration after the constructor has filled in the defaults; only the fields
  that \<^verbatim>\<open>executeWithErrorHandling\<close> and its handlers read. Times are milliseconds.
\<close>

record config =
  maxRetries :: nat
  retryDelay :: nat
  circuitBreakerThreshold :: nat
  circuitBreakerTimeout :: nat
  operationTimeout :: nat

definition default_config :: config where
  "default_config =
     \<lparr> maxRetries = 10, retryDelay = 1000, circuitBreakerThreshold = 5,
       circuitBreakerTimeout = 30000, operationTimeout = 10000 \<rparr>"

datatype cbstate = CLOSED | OPEN | HALF_OPEN

datatype errorType =
    CONNECTION_ERROR | TIMEOUT_ERROR | RESOURCE_ERROR | VALIDATION_ERROR
  | AUTHENTICATION_ERROR | RATE_LIMIT_ERROR | DATA_CORRUPTION_ERROR | NETWORK_ERROR
  | UNKNOWN_ERROR

text \<open>
  A failure is the error's message and, when the error carries a response with a
  \<^verbatim>\<open>retry-after\<close> header, the integer \<^verbatim>\<open>parseInt\<close> reads from it.
\<close>

record failure =
  message :: string
  retryAfterHeader :: "int option"

definition plainError :: "string \<Rightarrow> failure" where
  "plainError m = \<lparr> message = m, retryAfterHeader = None \<rparr>"

datatype event =
    OperationFailed errorType nat
  | OperationSuccess
  | CircuitBreakerOpened nat
  | ResourceCleanup
  | AuthRefreshNeeded
  | DataIntegrityIssue

text \<open>
  The fields of the handler that the executor uses, and the world around one call:
  \<open>clock\<close> is what \<^verbatim>\<open>Date.now()\<close> returns, \<open>invocations\<close> counts the calls of the wrapped
  operation, \<open>draws\<close> the calls of \<^verbatim>\<open>Math.random()\<close> in \<^verbatim>\<open>calculateBackoffDelay\<close>,
  \<open>timers\<close> lists the timeout each invocation raced against, \<open>slept\<close> the delays passed
  to \<^verbatim>\<open>sleep\<close>, and \<open>emitted\<close> the events. The bookkeeping of
  \<^verbatim>\<open>operationsInProgress\<close> is left out: nothing in the executor reads it.
\<close>

record handler =
  circuitBreakerState :: cbstate
  failureCount :: nat
  lastFailureTime :: rat
  clock :: rat
  invocations :: nat
  draws :: nat
  timers :: "rat list"
  slept :: "rat list"
  emitted :: "event list"

definition newHandler :: "rat \<Rightarrow> handler" where
  "newHandler now =
     \<lparr> circuitBreakerState = CLOSED, failureCount = 0, lastFailureTime = 0, clock = now,
       invocations = 0, draws = 0, timers = [], slept = [], emitted = [] \<rparr>"

text \<open>
  What one invocation of the wrapped operation does: it resolves or rejects after some
  time, or never settles. The environment gives the outcome of the \<open>i\<close>-th invocation and
  the \<open>i\<close>-th value of \<^verbatim>\<open>Math.random()\<close>.
\<close>

datatype 'a outcome = Resolves 'a rat | Rejects failure rat | Hangs

record 'a environment =
  operation :: "nat \<Rightarrow> 'a outcome"
  random :: "nat \<Rightarrow> rat"

record opContext =
  retryAttempt :: nat
  timeout :: "rat option"

definition noContext :: opContext where
  "noContext = \<lparr> retryAttempt = 0, timeout = None \<rparr>"

text \<open>
  A handler ends by throwing or by the call
  \<^verbatim>\<open>this.executeWithErrorHandling(operation, {...context, retryAttempt})\<close>; \<open>Retry\<close> is that
  call with its new context.
\<close>

datatype decision = Throw failure | Retry opContext

subsection \<open>Operations\<close>

definition classifyError :: "failure \<Rightarrow> errorType" where
  "classifyError e =
     (let m = toLowerCase (message e) in
      if includesStr m ''connection'' \<or> includesStr m ''connect'' then CONNECTION_ERROR
      else if includesStr m ''timeout'' \<or> includesStr m ''timed out'' then TIMEOUT_ERROR
      else if includesStr m ''memory'' \<or> includesStr m ''space'' then RESOURCE_ERROR
      else if includesStr m ''validation'' \<or> includesStr m ''invalid'' then VALIDATION_ERROR
      else if includesStr m ''auth'' \<or> includesStr m ''permission'' \<or> includesStr m ''unauthorized''
        then AUTHENTICATION_ERROR
      else if includesStr m ''rate limit'' \<or> includesStr m ''too many'' then RATE_LIMIT_ERROR
      else if includesStr m ''corrupt'' \<or> includesStr m ''checksum'' then DATA_CORRUPTION_ERROR
      else if includesStr m ''network'' \<or> includesStr m ''host'' \<or> includesStr m ''dns'' then NETWORK_ERROR
      else UNKNOWN_ERROR)"

text \<open>
  The delay of a \<^verbatim>\<open>setTimeout\<close> timer: a delay below 1 or above 2147483647 is taken as
  1 millisecond, any other is cut to a whole number of milliseconds. \<^verbatim>\<open>sleep(ms)\<close> waits
  for such a timer.
\<close>

definition timerDelay :: "rat \<Rightarrow> rat" where
  "timerDelay ms = (if ms < 1 \<or> 2147483647 < ms then 1 else of_int \<lfloor>ms\<rfloor>)"

definition sleep :: "rat \<Rightarrow> handler \<Rightarrow> handler" where
  "sleep ms s = s\<lparr> clock := clock s + timerDelay ms, slept := slept s @ [ms] \<rparr>"

definition emit :: "event \<Rightarrow> handler \<Rightarrow> handler" where
  "emit ev s = s\<lparr> emitted := emitted s @ [ev] \<rparr>"

definition onOperationSuccess :: "handler \<Rightarrow> handler" where
  "onOperationSuccess s =
     emit OperationSuccess
       (if circuitBreakerState s = HALF_OPEN
        then s\<lparr> circuitBreakerState := CLOSED, failureCount := 0 \<rparr>
        else if circuitBreakerState s = CLOSED \<and> failureCount s > 0
        then s\<lparr> failureCount := max 0 (failureCount s - 1) \<rparr>
        else s)"

definition openCircuitBreaker :: "handler \<Rightarrow> handler" where
  "openCircuitBreaker s =
     emit (CircuitBreakerOpened (failureCount s))
       (s\<lparr> circuitBreakerState := OPEN, lastFailureTime := clock s \<rparr>)"

definition calculateBackoffDelay :: "config \<Rightarrow> 'a environment \<Rightarrow> nat \<Rightarrow> handler \<Rightarrow> rat \<times> handler" where
  "calculateBackoffDelay cfg env attempt s =
     (let baseDelay = of_nat (retryDelay cfg);
          exponentialDelay = baseDelay * 2 ^ (attempt - 1);
          jitter = random env (draws s) * 1000
      in (min (exponentialDelay + jitter) 30000, s\<lparr> draws := draws s + 1 \<rparr>))"

definition extractRetryAfter :: "failure \<Rightarrow> rat option" where
  "extractRetryAfter e =
     (case retryAfterHeader e of None \<Rightarrow> None | Some n \<Rightarrow> Some (of_int n * 1000))"

definition circuitOpenMessage :: string where
  "circuitOpenMessage = ''Circuit breaker is OPEN - operation rejected''"

definition timeoutMessage :: "config \<Rightarrow> string" where
  "timeoutMessage cfg = ''Operation timeout after '' @ string_of_nat (operationTimeout cfg) @ ''ms''"

text \<open>
  The \<^verbatim>\<open>try\<close> block of \<^verbatim>\<open>executeWithErrorHandling\<close>: the circuit check, then the operation
  raced against a \<^verbatim>\<open>setTimeout\<close> timer of \<^verbatim>\<open>this.config.operationTimeout\<close>. The operation
  wins the race when it settles before the timer fires.
\<close>

definition circuitCheck :: "config \<Rightarrow> handler \<Rightarrow> failure + handler" where
  "circuitCheck cfg s =
     (if circuitBreakerState s = OPEN
      then (if clock s - lastFailureTime s > of_nat (circuitBreakerTimeout cfg)
            then Inr (s\<lparr> circuitBreakerState := HALF_OPEN \<rparr>)
            else Inl (plainError circuitOpenMessage))
      else Inr s)"

definition raceOperation :: "config \<Rightarrow> 'a environment \<Rightarrow> handler \<Rightarrow> (failure + 'a) \<times> handler" where
  "raceOperation cfg env s =
     (let t = timerDelay (of_nat (operationTimeout cfg));
          s1 = s\<lparr> invocations := invocations s + 1, timers := timers s @ [t] \<rparr>;
          timedOut = (Inl (plainError (timeoutMessage cfg)), s1\<lparr> clock := clock s1 + t \<rparr>)
      in case operation env (invocations s) of
           Resolves v d \<Rightarrow>
             if d < t then (Inr v, onOperationSuccess (s1\<lparr> clock := clock s1 + d \<rparr>))
             else timedOut
         | Rejects e d \<Rightarrow>
             if d < t then (Inl e, s1\<lparr> clock := clock s1 + d \<rparr>) else timedOut
         | Hangs \<Rightarrow> timedOut)"

definition attempt :: "config \<Rightarrow> 'a environment \<Rightarrow> handler \<Rightarrow> (failure + 'a) \<times> handler" where
  "attempt cfg env s =
     (case circuitCheck cfg s of
        Inl e \<Rightarrow> (Inl e, s)
      | Inr s1 \<Rightarrow> raceOperation cfg env s1)"

definition handleConnectionError ::
  "config \<Rightarrow> 'a environment \<Rightarrow> failure \<Rightarrow> opContext \<Rightarrow> handler \<Rightarrow> decision \<times> handler" where
  "handleConnectionError cfg env e ctx s =
     (let r = retryAttempt ctx + 1 in
      if r > maxRetries cfg
      then (Throw (plainError (''Max retries ('' @ string_of_nat (maxRetries cfg)
                     @ '') exceeded for connection error: '' @ message e)), s)
      else case calculateBackoffDelay cfg env r s of
             (delay, s1) \<Rightarrow> (Retry (ctx\<lparr> retryAttempt := r \<rparr>), sleep delay s1))"

definition handleTimeoutError ::
  "config \<Rightarrow> 'a environment \<Rightarrow> failure \<Rightarrow> opContext \<Rightarrow> handler \<Rightarrow> decision \<times> handler" where
  "handleTimeoutError cfg env e ctx s =
     (let r = retryAttempt ctx + 1 in
      if r > 3
      then (Throw (plainError (''Timeout retries exceeded: '' @ message e)), s)
      else
        let newTimeout = of_nat (operationTimeout cfg) * (3 / 2) ^ r
        in (Retry (ctx\<lparr> retryAttempt := r, timeout := Some newTimeout \<rparr>),
            sleep (1000 * of_nat r) s))"

definition handleResourceError ::
  "config \<Rightarrow> 'a environment \<Rightarrow> failure \<Rightarrow> opContext \<Rightarrow> handler \<Rightarrow> decision \<times> handler" where
  "handleResourceError cfg env e ctx s =
     (let s1 = sleep 5000 (emit ResourceCleanup s);
          r = retryAttempt ctx + 1
      in if r > 2
         then (Throw (plainError (''Resource error retries exceeded: '' @ message e)), s1)
         else (Retry (ctx\<lparr> retryAttempt := r \<rparr>), s1))"

definition handleAuthError ::
  "config \<Rightarrow> 'a environment \<Rightarrow> failure \<Rightarrow> opContext \<Rightarrow> handler \<Rightarrow> decision \<times> handler" where
  "handleAuthError cfg env e ctx s =
     (let s1 = sleep 2000 (emit AuthRefreshNeeded s);
          r = retryAttempt ctx + 1
      in if r > 1
         then (Throw (plainError (''Authentication error: '' @ message e)), s1)
         else (Retry (ctx\<lparr> retryAttempt := r \<rparr>), s1))"

definition handleRateLimitError ::
  "config \<Rightarrow> 'a environment \<Rightarrow> failure \<Rightarrow> opContext \<Rightarrow> handler \<Rightarrow> decision \<times> handler" where
  "handleRateLimitError cfg env e ctx s =
     (let retryAfter = (case extractRetryAfter e of
                          None \<Rightarrow> 5000
                        | Some ms \<Rightarrow> if ms = 0 then 5000 else ms);
          s1 = sleep retryAfter s;
          r = retryAttempt ctx + 1
      in if r > 3
         then (Throw (plainError (''Rate limit retries exceeded: '' @ message e)), s1)
         else (Retry (ctx\<lparr> retryAttempt := r \<rparr>), s1))"

definition handleDataCorruptionError ::
  "config \<Rightarrow> 'a environment \<Rightarrow> failure \<Rightarrow> opContext \<Rightarrow> handler \<Rightarrow> decision \<times> handler" where
  "handleDataCorruptionError cfg env e ctx s =
     (Throw (plainError (''Data corruption detected: '' @ message e)), emit DataIntegrityIssue s)"

definition handleNetworkError ::
  "config \<Rightarrow> 'a environment \<Rightarrow> failure \<Rightarrow> opContext \<Rightarrow> handler \<Rightarrow> decision \<times> handler" where
  "handleNetworkError cfg env e ctx s =
     (let r = retryAttempt ctx + 1 in
      if r > maxRetries cfg
      then (Throw (plainError (''Network error retries exceeded: '' @ message e)), s)
      else
        let delay = min (of_nat (retryDelay cfg) * 2 ^ r) 30000
        in (Retry (ctx\<lparr> retryAttempt := r \<rparr>), sleep delay s))"

definition handleGenericError ::
  "config \<Rightarrow> 'a environment \<Rightarrow> failure \<Rightarrow> opContext \<Rightarrow> handler \<Rightarrow> decision \<times> handler" where
  "handleGenericError cfg env e ctx s =
     (let r = retryAttempt ctx + 1 in
      if r > maxRetries cfg div 2
      then (Throw e, s)
      else case calculateBackoffDelay cfg env r s of
             (delay, s1) \<Rightarrow> (Retry (ctx\<lparr> retryAttempt := r \<rparr>), sleep delay s1))"

text \<open>
  \<^verbatim>\<open>handleOperationFailure\<close> first records the failure (\<open>recordFailure\<close>: the counter, the
  time, the event, the breaker), then hands the error to the handler of its type.
\<close>

definition recordFailure :: "config \<Rightarrow> failure \<Rightarrow> opContext \<Rightarrow> handler \<Rightarrow> handler" where
  "recordFailure cfg e ctx s =
     (let s1 = s\<lparr> failureCount := failureCount s + 1, lastFailureTime := clock s \<rparr>;
          s2 = emit (OperationFailed (classifyError e) (retryAttempt ctx)) s1
      in if failureCount s2 \<ge> circuitBreakerThreshold cfg then openCircuitBreaker s2 else s2)"

definition handleOperationFailure ::
  "config \<Rightarrow> 'a environment \<Rightarrow> failure \<Rightarrow> opContext \<Rightarrow> handler \<Rightarrow> decision \<times> handler" where
  "handleOperationFailure cfg env e ctx s =
     (let s1 = recordFailure cfg e ctx s in
      case classifyError e of
        CONNECTION_ERROR \<Rightarrow> handleConnectionError cfg env e ctx s1
      | TIMEOUT_ERROR \<Rightarrow> handleTimeoutError cfg env e ctx s1
      | RESOURCE_ERROR \<Rightarrow> handleResourceError cfg env e ctx s1
      | VALIDATION_ERROR \<Rightarrow> (Throw e, s1)
      | AUTHENTICATION_ERROR \<Rightarrow> handleAuthError cfg env e ctx s1
      | RATE_LIMIT_ERROR \<Rightarrow> handleRateLimitError cfg env e ctx s1
      | DATA_CORRUPTION_ERROR \<Rightarrow> handleDataCorruptionError cfg env e ctx s1
      | NETWORK_ERROR \<Rightarrow> handleNetworkError cfg env e ctx s1
      | UNKNOWN_ERROR \<Rightarrow> handleGenericError cfg env e ctx s1)"

text \<open>No handler retries beyond this attempt number.\<close>

definition retryBound :: "config \<Rightarrow> nat" where
  "retryBound cfg = max (maxRetries cfg) 3"

lemma handleOperationFailure_retry:
  "handleOperationFailure cfg env e ctx s = (Retry ctx', s') \<Longrightarrow>
   retryAttempt ctx' = retryAttempt ctx + 1 \<and> retryAttempt ctx' \<le> retryBound cfg"
  by (auto simp add: handleOperationFailure_def handleConnectionError_def handleTimeoutError_def
      handleResourceError_def handleAuthError_def handleRateLimitError_def
      handleDataCorruptionError_def handleNetworkError_def handleGenericError_def
      retryBound_def Let_def split: errorType.splits if_splits prod.splits)

function executeWithErrorHandling ::
  "config \<Rightarrow> 'a environment \<Rightarrow> opContext \<Rightarrow> handler \<Rightarrow> (failure + 'a) \<times> handler" where
  "executeWithErrorHandling cfg env ctx s =
     (case attempt cfg env s of
        (Inr result, s1) \<Rightarrow> (Inr result, s1)
      | (Inl e, s1) \<Rightarrow>
          (case handleOperationFailure cfg env e ctx s1 of
             (Throw e', s2) \<Rightarrow> (Inl e', s2)
           | (Retry ctx', s2) \<Rightarrow> executeWithErrorHandling cfg env ctx' s2))"
  by pat_completeness auto
termination
proof (relation "measure (\<lambda>(cfg, env, ctx, s). Suc (retryBound cfg) - retryAttempt ctx)", goal_cases)
  case 1
  show ?case by simp
next
  case (2 cfg env ctx s x y e d s2 ctx')
  then have "handleOperationFailure cfg env e ctx y = (Retry ctx', s2)" by simp
  from handleOperationFailure_retry [OF this]
  have "Suc (retryBound cfg) - retryAttempt ctx' < Suc (retryBound cfg) - retryAttempt ctx"
    by arith
  then show ?case by simp
qed

declare executeWithErrorHandling.simps [simp del]

subsection \<open>Calls made one after the other\<close>





subsection \<open>Scenarios\<close>

text \<open>
  A breaker that has just opened at time 100000; an operation that succeeds after 10 ms;
  one that is refused after 10 ms on every invocation; one that succeeds after 12 s, which
  is later than \<^verbatim>\<open>operationTimeout\<close> and earlier than 1.5 times it. \<^verbatim>\<open>Math.random()\<close>
  returns 0.
\<close>

definition open_handler :: handler where
  "open_handler =
     (newHandler 100000) \<lparr> circuitBreakerState := OPEN, failureCount := 5, lastFailureTime := 100000 \<rparr>"



definition ok_env :: "nat environment" where
  "ok_env = \<lparr> operation = (\<lambda>i. Resolves 42 10), random = (\<lambda>i. 0) \<rparr>"


definition slow_env :: "nat environment" where
  "slow_env = \<lparr> operation = (\<lambda>i. Resolves 42 12000), random = (\<lambda>i. 0) \<rparr>"



section \<open>HeartbeatSystem: properties\<close>

lemma stopPolling_fields [simp]:
  "listeners (stopPolling s) = listeners s"
  "cache (stopPolling s) = cache s"
  "readLog (stopPolling s) = readLog s"
  "delivered (stopPolling s) = delivered s"
  "pollingInterval (stopPolling s) = pollingInterval s"
  "pending (stopPolling s) = pending s"
  "isPolling (stopPolling s) = False"
  by (simp_all add: stopPolling_def)

lemma stopPolling_intervalId: "isPolling s \<or> intervalId s = None \<Longrightarrow> intervalId (stopPolling s) = None"
  by (auto simp add: stopPolling_def)

lemma notifyListeners_fields [simp]:
  "listeners (notifyListeners k d ct s) = listeners s"
  "cache (notifyListeners k d ct s) = cache s"
  "readLog (notifyListeners k d ct s) = readLog s"
  "isPolling (notifyListeners k d ct s) = isPolling s"
  "intervalId (notifyListeners k d ct s) = intervalId s"
  "pollingInterval (notifyListeners k d ct s) = pollingInterval s"
  "lastPollTime (notifyListeners k d ct s) = lastPollTime s"
  "pending (notifyListeners k d ct s) = pending s"
  by (simp_all add: notifyListeners_def split: option.splits)

lemma stamp_gt_irrefl [simp]: "\<not> stamp_gt t t"
  by (cases t) simp_all

lemma hasDataChanged_same [simp]:
  "\<not> hasDataChanged js (Some \<lparr> data = data cur, lastModified = lastModified cur \<rparr>) (Some cur)"
  by (simp add: hasDataChanged_def split: option.splits)

lemma handleAnswer_fields [simp]:
  "listeners (handleAnswer js k a s) = listeners s"
  "readLog (handleAnswer js k a s) = readLog s"
  "isPolling (handleAnswer js k a s) = isPolling s"
  "intervalId (handleAnswer js k a s) = intervalId s"
  "pollingInterval (handleAnswer js k a s) = pollingInterval s"
  "lastPollTime (handleAnswer js k a s) = lastPollTime s"
  "pending (handleAnswer js k a s) = pending s"
  by (simp_all add: handleAnswer_def split: sum.splits option.splits)

lemma handleAnswer_cache_other:
  "k' \<noteq> k \<Longrightarrow> map_of (cache (handleAnswer js k a s)) k' = map_of (cache s) k'"
  by (simp add: handleAnswer_def AList.update_conv' split: sum.splits option.splits)

lemma issueRead_fields [simp]:
  "listeners (issueRead db k s) = listeners s"
  "cache (issueRead db k s) = cache s"
  "delivered (issueRead db k s) = delivered s"
  "isPolling (issueRead db k s) = isPolling s"
  "intervalId (issueRead db k s) = intervalId s"
  "pollingInterval (issueRead db k s) = pollingInterval s"
  "readLog (issueRead db k s) = readLog s @ [k]"
  "pending (issueRead db k s) = pending s @ [(k, readData db k)]"
  by (simp_all add: issueRead_def)

lemma checkKeyForChanges_fields [simp]:
  "listeners (checkKeyForChanges js db k s) = listeners s"
  "readLog (checkKeyForChanges js db k s) = readLog s @ [k]"
  "isPolling (checkKeyForChanges js db k s) = isPolling s"
  "intervalId (checkKeyForChanges js db k s) = intervalId s"
  "pollingInterval (checkKeyForChanges js db k s) = pollingInterval s"
  "lastPollTime (checkKeyForChanges js db k s) = lastPollTime s"
  by (simp_all add: checkKeyForChanges_def)

lemma answerArrives_fields [simp]:
  "listeners (answerArrives js n s) = listeners s"
  "readLog (answerArrives js n s) = readLog s"
  "isPolling (answerArrives js n s) = isPolling s"
  "intervalId (answerArrives js n s) = intervalId s"
  "pollingInterval (answerArrives js n s) = pollingInterval s"
  by (simp_all add: answerArrives_def)

lemmas hb_eval = addListener_def newHeartbeat_def orders_db_def startPolling_def poll_def Let_def
  set_add_def set_delete_def checkKeyForChanges_def notifyListeners_def intervalFires_def stopPolling_def
  removeListener_def unsubscribe_def callbacksOf_def getStatus_def setPollingInterval_def hasDataChanged_def
  issueRead_def handleAnswer_def answerArrives_def

lemma watching_orders_eq:
  "watching_orders =
     \<lparr> pollingInterval = 2000, isPolling = True, intervalId = Some 2000,
       cache = [], listeners = [(''orders'', [7])], lastPollTime = Some 0,
       readLog = [''orders''], delivered = [],
       pending = [(''orders'',
                   Inr (Some \<lparr> data = ''{status:new}'', lastModified = Some (Millis 1) \<rparr>))] \<rparr>"
  by (simp add: watching_orders_def hb_eval)



text \<open>
  Claim C9 as stated fails: the error that \<^verbatim>\<open>setPollingInterval(50)\<close> throws is made by
  \<^verbatim>\<open>new Error(...)\<close>, so its name is "Error" and not "ValidationError", and
  \<^verbatim>\<open>classifyError\<close> takes its message for an unknown error, not for a validation error.
\<close>

theorem setPollingInterval_error_kind_counterexample:
  "fst (setPollingInterval id (orders_db True) 5000 (Number 50) watching_orders)
     = Inl (Error ''Polling interval must be a number >= 100ms'')
   \<and> errorName (Error ''Polling interval must be a number >= 100ms'') = ''Error''
   \<and> errorName (Error ''Polling interval must be a number >= 100ms'') \<noteq> ''ValidationError''
   \<and> classifyError (plainError ''Polling interval must be a number >= 100ms'') = UNKNOWN_ERROR
   \<and> classifyError (plainError ''Polling interval must be a number >= 100ms'') \<noteq> VALIDATION_ERROR"
  by (simp add: setPollingInterval_def errorName_def classifyError_def toLowerCase_def
      toLowerChar_def plainError_def Let_def)

text \<open>
  Claim C9, amended. \<^verbatim>\<open>setPollingInterval(ms)\<close> with \<open>ms < 100\<close> throws a plain
  \<^verbatim>\<open>Error\<close> with the message "Polling interval must be a number >= 100ms" and returns
  the state it was given: interval, timer, polling flag and watchers are as before.
\<close>

theorem setPollingInterval_rejects_below_minimum:
  "ms < 100 \<Longrightarrow> setPollingInterval js db now (Number ms) s = (Inl (Error ''Polling interval must be a number >= 100ms''), s)"
  by (simp add: setPollingInterval_def)

theorem setPollingInterval_rejects_below_minimum_witness:
  "(50::rat) < 100 \<and> setPollingInterval id (orders_db True) 5000 (Number 50) watching_orders =
     (Inl (Error ''Polling interval must be a number >= 100ms''), watching_orders)
   \<and> isPolling watching_orders \<and> pollingInterval watching_orders = 2000
   \<and> map fst (listeners watching_orders) = [''orders'']"
  using setPollingInterval_rejects_below_minimum [of 50 id "orders_db True" 5000 watching_orders]
  by (simp add: watching_orders_eq)

lemma fold_issueRead_fields [simp]:
  "listeners (fold (issueRead db) ks s) = listeners s"
  "cache (fold (issueRead db) ks s) = cache s"
  "delivered (fold (issueRead db) ks s) = delivered s"
  "isPolling (fold (issueRead db) ks s) = isPolling s"
  "intervalId (fold (issueRead db) ks s) = intervalId s"
  "pollingInterval (fold (issueRead db) ks s) = pollingInterval s"
  "readLog (fold (issueRead db) ks s) = readLog s @ ks"
  "pending (fold (issueRead db) ks s) = pending s @ map (\<lambda>k. (k, readData db k)) ks"
  by (induction ks arbitrary: s; simp)+

lemma poll_listeners [simp]: "listeners (poll js db now s) = listeners s"
  by (simp add: poll_def Let_def)

lemma poll_pollingInterval [simp]: "pollingInterval (poll js db now s) = pollingInterval s"
  by (simp add: poll_def Let_def)

lemma poll_readLog:
  "readLog (poll js db now s) = readLog s @ (if isConnected db then map fst (listeners s) else [])"
  by (simp add: poll_def Let_def)

lemma poll_cache [simp]: "cache (poll js db now s) = cache s"
  by (simp add: poll_def Let_def)

lemma poll_pending:
  "pending (poll js db now s) =
     pending s @ (if isConnected db then map (\<lambda>k. (k, readData db k)) (map fst (listeners s)) else [])"
  by (simp add: poll_def Let_def)


lemma run_Nil [simp]: "run js [] s = s"
  by (simp add: run_def)

lemma run_Cons [simp]: "run js (c # cs) s = run js cs (step js c s)"
  by (simp add: run_def)

lemma run_append: "run js (cs @ ds) s = run js ds (run js cs s)"
  by (simp add: run_def)

lemma startPolling_listeners [simp]: "listeners (snd (startPolling js db now s)) = listeners s"
  by (simp add: startPolling_def)

lemma set_add_nonempty [simp]: "set_add x xs \<noteq> []"
  by (auto simp add: set_add_def)

lemma addListener_snd:
  "snd (addListener js db now k (Some cb) s) =
     (let s1 = s\<lparr> listeners := AList.update k (set_add cb (callbacksOf s k)) (listeners s) \<rparr>
      in if \<not> isPolling s then snd (startPolling js db now s1) else s1)"
  by (auto simp add: addListener_def callbacksOf_def Let_def AList.update_conv' split: option.splits prod.splits sum.splits)

lemma addListener_map_of:
  "map_of (listeners (snd (addListener js db now k cbo s))) =
     (case cbo of None \<Rightarrow> map_of (listeners s)
      | Some cb \<Rightarrow> (map_of (listeners s))(k \<mapsto> set_add cb (callbacksOf s k)))"
  by (cases cbo) (simp_all add: addListener_snd Let_def AList.update_conv', simp add: addListener_def)

lemma listeners_maybe_stop [simp]: "listeners (if b then stopPolling s else s) = listeners s"
  by simp

lemma readLog_maybe_stop [simp]: "readLog (if b then stopPolling s else s) = readLog s"
  by simp

lemma removeListener_map_of:
  "map_of (listeners (removeListener k cb s)) =
     (case map_of (listeners s) k of None \<Rightarrow> map_of (listeners s)
      | Some cbs \<Rightarrow> if set_delete cb cbs = [] then (map_of (listeners s))(k := None)
                    else (map_of (listeners s))(k \<mapsto> set_delete cb cbs))"
  by (simp add: removeListener_def Let_def AList.update_conv' AList.delete_conv' split: option.splits)

lemma removeAllListeners_map_of:
  "map_of (listeners (removeAllListeners ko s)) =
     (case ko of None \<Rightarrow> Map.empty
      | Some k \<Rightarrow> if k = [] then Map.empty else (map_of (listeners s))(k := None))"
  by (simp add: removeAllListeners_def Let_def AList.delete_conv' split: option.splits)

lemma setPollingInterval_listeners [simp]:
  "listeners (snd (setPollingInterval js db now a s)) = listeners s"
  by (simp add: setPollingInterval_def Let_def split: jsarg.splits)

lemma intervalFires_listeners [simp]: "listeners (intervalFires js db now s) = listeners s"
  by (simp add: intervalFires_def)

lemma destroy_listeners [simp]: "listeners (destroy s) = []"
  by (simp add: destroy_def removeAllListeners_def)

lemma step_no_empty_watcher:
  "no_empty_watcher s \<Longrightarrow> no_empty_watcher (step js c s)"
proof -
  assume inv: "no_empty_watcher s"
  obtain db now cl where c: "c = (db, now, cl)" by (cases c) auto
  show ?thesis
  proof (cases cl)
    case (AddListener k cbo)
    with inv c show ?thesis
      by (auto simp add: no_empty_watcher_def addListener_map_of split: option.splits)
  next
    case (RemoveListener k cb)
    with inv c show ?thesis
      by (auto simp add: no_empty_watcher_def removeListener_map_of split: option.splits)
  next
    case (RemoveAllListeners ko)
    with inv c show ?thesis
      by (auto simp add: no_empty_watcher_def removeAllListeners_map_of split: option.splits)
  next
    case (SetPollingInterval a)
    with inv c show ?thesis by (simp add: no_empty_watcher_def)
  next
    case IntervalFires
    with inv c show ?thesis by (simp add: no_empty_watcher_def)
  next
    case (AnswerArrives n)
    with inv c show ?thesis by (simp add: no_empty_watcher_def)
  next
    case Destroy
    with inv c show ?thesis by (simp add: no_empty_watcher_def)
  qed
qed

lemma run_no_empty_watcher:
  "no_empty_watcher s \<Longrightarrow> no_empty_watcher (run js calls s)"
  by (induction calls arbitrary: s) (simp_all add: step_no_empty_watcher)

lemma newHeartbeat_no_empty_watcher: "no_empty_watcher (newHeartbeat cfg)"
  by (simp add: no_empty_watcher_def newHeartbeat_def)

lemma watcher_iff_callback:
  "no_empty_watcher s \<Longrightarrow> (map_of (listeners s) k \<noteq> None) = (callbacksOf s k \<noteq> [])"
  by (auto simp add: no_empty_watcher_def callbacksOf_def split: option.splits)

lemma startPolling_readLog:
  "readLog (snd (startPolling js db now s)) = readLog s @ (if \<not> isPolling s \<and> isConnected db then map fst (listeners s) else [])"
  by (simp add: startPolling_def poll_readLog)

lemma keys_filter_None:
  "map_of al k = None \<Longrightarrow> filter ((=) k) (map fst al) = []"
  by (induction al) (auto split: if_splits)

lemma removeListener_readLog [simp]: "readLog (removeListener k cb s) = readLog s"
  by (simp add: removeListener_def Let_def split: option.splits)

lemma removeAllListeners_readLog [simp]: "readLog (removeAllListeners ko s) = readLog s"
  by (simp add: removeAllListeners_def Let_def split: option.splits)

lemma step_unwatched:
  assumes "map_of (listeners s) k = None" and "\<not> subscribes_to k (snd (snd c))"
  shows "map_of (listeners (step js c s)) k = None
       \<and> filter ((=) k) (readLog (step js c s)) = filter ((=) k) (readLog s)"
proof -
  obtain db now cl where c: "c = (db, now, cl)" by (cases c) auto
  show ?thesis
  proof (cases cl)
    case (AddListener k' cbo)
    show ?thesis
    proof (cases cbo)
      case None
      with AddListener c assms show ?thesis by (simp add: addListener_def)
    next
      case (Some cb)
      with AddListener c assms have ne: "k' \<noteq> k" by simp
      have m: "map_of (listeners (snd (addListener js db now k' (Some cb) s))) k = None"
        using assms(1) ne by (simp add: addListener_map_of)
      have "\<exists>ks. readLog (snd (addListener js db now k' (Some cb) s)) = readLog s @ ks \<and> filter ((=) k) ks = []"
        using assms(1) ne by (auto simp add: addListener_snd Let_def startPolling_readLog AList.update_conv' intro!: keys_filter_None)
      with m AddListener Some c show ?thesis by auto
    qed
  next
    case (RemoveListener k' cb)
    with c assms show ?thesis
      by (auto simp add: removeListener_map_of split: option.splits)
  next
    case (RemoveAllListeners ko)
    with c assms show ?thesis
      by (simp add: removeAllListeners_map_of split: option.splits)
  next
    case (SetPollingInterval a)
    with c assms show ?thesis
      by (auto simp add: setPollingInterval_def Let_def startPolling_readLog keys_filter_None split: jsarg.splits)
  next
    case IntervalFires
    with c assms show ?thesis 
      by (auto simp add: intervalFires_def poll_readLog keys_filter_None)
  next
    case (AnswerArrives n)
    with c assms show ?thesis by simp
  next
    case Destroy
    with c assms show ?thesis by (simp add: destroy_def removeAllListeners_map_of)
  qed
qed

lemma run_unwatched:
  "map_of (listeners s) k = None \<Longrightarrow> \<forall>c \<in> set calls. \<not> subscribes_to k (snd (snd c)) \<Longrightarrow>
   map_of (listeners (run js calls s)) k = None
   \<and> filter ((=) k) (readLog (run js calls s)) = filter ((=) k) (readLog s)"
proof (induction calls arbitrary: s)
  case Nil
  then show ?case by simp
next
  case (Cons c calls)
  from step_unwatched [of s k c js] Cons.prems
  have st: "map_of (listeners (step js c s)) k = None"
    and rl: "filter ((=) k) (readLog (step js c s)) = filter ((=) k) (readLog s)" by auto
  from Cons.IH [OF st] Cons.prems rl show ?case by simp
qed

lemma removeAll_Nil_iff: "(removeAll x xs = []) = (set xs \<subseteq> {x})"
  by (induction xs) auto

lemma removeListener_cache_last:
  "map_of (listeners s) k = Some cbs \<Longrightarrow> set_delete cb cbs = [] \<Longrightarrow>
   map_of (cache (removeListener k cb s)) k = None"
  by (simp add: removeListener_def Let_def AList.delete_conv' stopPolling_def)

lemma unsubscribe_last:
  assumes "set (callbacksOf s k) = {cb}"
  shows "map_of (listeners (unsubscribe (k, cb) s)) k = None"
    and "map_of (cache (unsubscribe (k, cb) s)) k = None"
    and "readLog (unsubscribe (k, cb) s) = readLog s"
proof -
  from assms obtain cbs where w: "map_of (listeners s) k = Some cbs" and c: "set cbs = {cb}"
    by (cases "map_of (listeners s) k") (simp_all add: callbacksOf_def)
  from c have d: "set_delete cb cbs = []"
    by (simp add: set_delete_def removeAll_Nil_iff)
  show "map_of (listeners (unsubscribe (k, cb) s)) k = None"
    using w d by (simp add: unsubscribe_def removeListener_map_of)
  show "map_of (cache (unsubscribe (k, cb) s)) k = None"
    using w d by (simp add: unsubscribe_def removeListener_cache_last)
  show "readLog (unsubscribe (k, cb) s) = readLog s"
    by (simp add: unsubscribe_def)
qed

lemma cache_maybe_stop [simp]: "cache (if b then stopPolling s else s) = cache s"
  by simp

lemma removeListener_other_key:
  assumes "k' \<noteq> k"
  shows "map_of (listeners (removeListener k cb s)) k' = map_of (listeners s) k'
   \<and> map_of (cache (removeListener k cb s)) k' = map_of (cache s) k'"
proof -
  have l: "map_of (listeners (removeListener k cb s)) k' = map_of (listeners s) k'"
    using assms by (simp add: removeListener_map_of split: option.splits)
  have c: "map_of (cache (removeListener k cb s)) k' = map_of (cache s) k'"
    using assms by (simp add: removeListener_def Let_def AList.delete_conv' split: option.splits)
  from l c show ?thesis by (rule conjI)
qed

lemma removeListener_not_last:
  assumes "map_of (listeners s) k = Some cbs" and "set_delete cb cbs \<noteq> []"
  shows "map_of (listeners (removeListener k cb s)) k = Some (set_delete cb cbs)
   \<and> cache (removeListener k cb s) = cache s"
proof -
  have l: "map_of (listeners (removeListener k cb s)) k = Some (set_delete cb cbs)"
    using assms by (simp add: removeListener_map_of)
  have c: "cache (removeListener k cb s) = cache s"
    using assms by (simp add: removeListener_def Let_def)
  from l c show ?thesis by (rule conjI)
qed

text \<open>
  What holds of the watcher lifecycle. In every state reached from a new HeartbeatSystem by
  any calls and answers, a key has an entry in \<open>listeners\<close> exactly when at least one
  callback is registered for it. When the only registered callback of a key is removed
  through the unsubscribe closure, the entry of the key is gone from \<open>listeners\<close> and from
  the cache, the key is not among the \<open>watchedKeys\<close> of \<^verbatim>\<open>getStatus\<close>, the watchers and
  cache entries of the other keys are as before, and whatever calls follow, as long as none
  subscribes to the key again, no further read of the key is issued.
\<close>

lemma watcher_lifecycle:
  fixes s :: "'v heartbeat"
  assumes "s = run js calls (newHeartbeat cfg)"
  shows "(map_of (listeners s) k \<noteq> None) = (callbacksOf s k \<noteq> [])
    \<and> (set (callbacksOf s k) = {cb} \<longrightarrow>
         map_of (listeners (unsubscribe (k, cb) s)) k = None
       \<and> map_of (cache (unsubscribe (k, cb) s)) k = None
       \<and> k \<notin> set (watchedKeys (getStatus (unsubscribe (k, cb) s)))
       \<and> (\<forall>k'. k' \<noteq> k \<longrightarrow>
            map_of (listeners (unsubscribe (k, cb) s)) k' = map_of (listeners s) k'
          \<and> map_of (cache (unsubscribe (k, cb) s)) k' = map_of (cache s) k')
       \<and> (\<forall>later. (\<forall>c \<in> set later. \<not> subscribes_to k (snd (snd c))) \<longrightarrow>
            filter ((=) k) (readLog (run js later (unsubscribe (k, cb) s)))
              = filter ((=) k) (readLog s)))"
proof -
  have inv: "no_empty_watcher s"
    using assms by (simp add: run_no_empty_watcher newHeartbeat_no_empty_watcher)
  have iff: "(map_of (listeners s) k \<noteq> None) = (callbacksOf s k \<noteq> [])"
    using inv by (rule watcher_iff_callback)
  have rest: "map_of (listeners (unsubscribe (k, cb) s)) k = None
       \<and> map_of (cache (unsubscribe (k, cb) s)) k = None
       \<and> k \<notin> set (watchedKeys (getStatus (unsubscribe (k, cb) s)))
       \<and> (\<forall>k'. k' \<noteq> k \<longrightarrow>
            map_of (listeners (unsubscribe (k, cb) s)) k' = map_of (listeners s) k'
          \<and> map_of (cache (unsubscribe (k, cb) s)) k' = map_of (cache s) k')
       \<and> (\<forall>later. (\<forall>c \<in> set later. \<not> subscribes_to k (snd (snd c))) \<longrightarrow>
            filter ((=) k) (readLog (run js later (unsubscribe (k, cb) s)))
              = filter ((=) k) (readLog s))"
    if last: "set (callbacksOf s k) = {cb}"
  proof -
    let ?s' = "unsubscribe (k, cb) s"
    note u = unsubscribe_last [OF last]
    have gone: "k \<notin> set (watchedKeys (getStatus ?s'))"
      using u(1) by (simp add: getStatus_def map_of_eq_None_iff)
    have others: "map_of (listeners ?s') k' = map_of (listeners s) k'
          \<and> map_of (cache ?s') k' = map_of (cache s) k'" if "k' \<noteq> k" for k'
      using removeListener_other_key [OF that, of cb s] by (simp add: unsubscribe_def)
    have later: "filter ((=) k) (readLog (run js later ?s')) = filter ((=) k) (readLog s)"
      if "\<forall>c \<in> set later. \<not> subscribes_to k (snd (snd c))" for later
      using run_unwatched [OF u(1) that, of js] u(3) by simp
    from u(1) u(2) gone others later show ?thesis by blast
  qed
  from iff rest show ?thesis by blast
qed

lemma watching_both_eq:
  "watching_both =
     \<lparr> pollingInterval = 2000, isPolling = True, intervalId = Some 2000,
       cache = [(''users'', \<lparr> data = ''{status:new}'', lastModified = Some (Millis 1) \<rparr>), (''orders'', \<lparr> data = ''{status:new}'', lastModified = Some (Millis 1) \<rparr>)],
       listeners = [(''users'', [8]), (''orders'', [7])], lastPollTime = Some 4000,
       readLog = [''users'', ''users'', ''orders'', ''users'', ''orders''],
       delivered = [(8, ''users'', Some ''{status:new}'', Created),
                    (7, ''orders'', Some ''{status:new}'', Created)],
       pending = [(''users'', Inr (Some \<lparr> data = ''{status:new}'', lastModified = Some (Millis 1) \<rparr>)), (''orders'', Inr (Some \<lparr> data = ''{status:new}'', lastModified = Some (Millis 1) \<rparr>))] \<rparr>"
  by (simp add: watching_both_def run_def hb_eval)

lemma unsubscribed_in_flight_eq:
  "unsubscribed_in_flight =
     \<lparr> pollingInterval = 2000, isPolling = True, intervalId = Some 2000,
       cache = [(''users'', \<lparr> data = ''{status:new}'', lastModified = Some (Millis 1) \<rparr>)],
       listeners = [(''users'', [8])], lastPollTime = Some 4000,
       readLog = [''users'', ''users'', ''orders'', ''users'', ''orders''],
       delivered = [(8, ''users'', Some ''{status:new}'', Created),
                    (7, ''orders'', Some ''{status:new}'', Created)],
       pending = [(''users'', Inr (Some \<lparr> data = ''{status:new}'', lastModified = Some (Millis 1) \<rparr>)), (''orders'', Inr (Some \<lparr> data = ''{status:new}'', lastModified = Some (Millis 1) \<rparr>))] \<rparr>"
  by (simp add: unsubscribed_in_flight_def watching_both_eq hb_eval)

lemma answered_after_unsubscribe_eq:
  "answered_after_unsubscribe =
     \<lparr> pollingInterval = 2000, isPolling = True, intervalId = Some 2000,
       cache = [(''users'', \<lparr> data = ''{status:new}'', lastModified = Some (Millis 1) \<rparr>), (''orders'', \<lparr> data = ''{status:new}'', lastModified = Some (Millis 1) \<rparr>)],
       listeners = [(''users'', [8])], lastPollTime = Some 4000,
       readLog = [''users'', ''users'', ''orders'', ''users'', ''orders''],
       delivered = [(8, ''users'', Some ''{status:new}'', Created),
                    (7, ''orders'', Some ''{status:new}'', Created)],
       pending = [(''users'', Inr (Some \<lparr> data = ''{status:new}'', lastModified = Some (Millis 1) \<rparr>))] \<rparr>"
  by (simp add: answered_after_unsubscribe_def unsubscribed_in_flight_eq run_def hb_eval)

lemma resubscribed_after_answer_eq:
  "resubscribed_after_answer =
     \<lparr> pollingInterval = 2000, isPolling = True, intervalId = Some 2000,
       cache = [(''users'', \<lparr> data = ''{status:new}'', lastModified = Some (Millis 1) \<rparr>), (''orders'', \<lparr> data = ''{status:new}'', lastModified = Some (Millis 1) \<rparr>)],
       listeners = [(''users'', [8]), (''orders'', [9])], lastPollTime = Some 6000,
       readLog = [''users'', ''users'', ''orders'', ''users'', ''orders'', ''users'', ''orders''],
       delivered = [(8, ''users'', Some ''{status:new}'', Created),
                    (7, ''orders'', Some ''{status:new}'', Created)],
       pending = [] \<rparr>"
  by (simp add: resubscribed_after_answer_def answered_after_unsubscribe_eq run_def hb_eval)

text \<open>
  Claim C5. The cache entry of a key is not released for good when its last callback is
  removed. With listeners on \<open>users\<close> and on \<open>orders\<close>, both keys cached and the reads of a
  tick in flight, the only callback of \<open>orders\<close> is removed through its unsubscribe closure.
  At the removal the watcher and the cache entry of \<open>orders\<close> are gone and those of \<open>users\<close>
  are kept. Then the answer of the read of \<open>orders\<close> arrives and is handled all the same:
  \<^verbatim>\<open>checkKeyForChanges\<close> resumes after its \<^verbatim>\<open>await\<close>, finds no cached entry and stores
  one, so the cache holds an entry for \<open>orders\<close> again although no watcher and no callback
  is registered for it and \<^verbatim>\<open>getStatus\<close> does not list it. No later tick reads \<open>orders\<close>,
  so the entry stays; and a listener added on \<open>orders\<close> afterwards finds it there and is
  never called for the unchanged record.
\<close>

theorem answer_after_unsubscribe_restores_cache_entry:
  "set (callbacksOf watching_both ''orders'') = {7}
   \<and> map_of (cache watching_both) ''orders''
       = Some \<lparr> data = ''{status:new}'', lastModified = Some (Millis 1) \<rparr>
   \<and> pending watching_both
       = [(''users'', readData (orders_db True) ''users''),
          (''orders'', readData (orders_db True) ''orders'')]
   \<and> listeners unsubscribed_in_flight = [(''users'', [8])]
   \<and> map_of (cache unsubscribed_in_flight) ''orders'' = None
   \<and> map fst (cache unsubscribed_in_flight) = [''users'']
   \<and> pending unsubscribed_in_flight = pending watching_both
   \<and> listeners answered_after_unsubscribe = [(''users'', [8])]
   \<and> callbacksOf answered_after_unsubscribe ''orders'' = []
   \<and> watchedKeys (getStatus answered_after_unsubscribe) = [''users'']
   \<and> listenerCount (getStatus answered_after_unsubscribe) = 1
   \<and> cacheSize (getStatus answered_after_unsubscribe) = 2
   \<and> map_of (cache answered_after_unsubscribe) ''orders''
       = Some \<lparr> data = ''{status:new}'', lastModified = Some (Millis 1) \<rparr>
   \<and> delivered answered_after_unsubscribe = delivered watching_both
   \<and> readLog (run id [(orders_db True, 6000, IntervalFires)] answered_after_unsubscribe)
       = readLog answered_after_unsubscribe @ [''users'']
   \<and> map_of (cache (run id [(orders_db True, 6000, IntervalFires), (orders_db True, 6001, AnswerArrives 0),
                            (orders_db True, 6002, AnswerArrives 0)] answered_after_unsubscribe)) ''orders''
       = Some \<lparr> data = ''{status:new}'', lastModified = Some (Millis 1) \<rparr>
   \<and> listeners resubscribed_after_answer = [(''users'', [8]), (''orders'', [9])]
   \<and> pending resubscribed_after_answer = []
   \<and> map fst (delivered resubscribed_after_answer) = [8, 7]"
  by (simp add: watching_both_eq unsubscribed_in_flight_eq answered_after_unsubscribe_eq
      resubscribed_after_answer_eq orders_db_def callbacksOf_def getStatus_def run_def
      intervalFires_def poll_def Let_def answerArrives_def handleAnswer_def hasDataChanged_def
      notifyListeners_def)






section \<open>The cache: properties\<close>

lemma plus_number_simps [simp]:
  "plus_number a (Finite y) = roundDouble (a + y)"
  "plus_number a Infinity = Infinity"
  "plus_number a NegInfinity = NegInfinity"
  by (simp_all add: plus_number_def)

lemma gt_number_simps [simp]:
  "gt_number a (Finite y) = (y < a)"
  "gt_number a Infinity = False"
  "gt_number a NegInfinity = True"
  by (simp_all add: gt_number_def)








text \<open>
  What \<^verbatim>\<open>getFromCache\<close> does for any stored numbers: an entry with metadata is dropped
  exactly when \<^verbatim>\<open>now\<close> exceeds the rounded sum.
\<close>

lemma getFromCache_rounded:
  assumes "map_of (entries s) k = Some v" and "map_of (cacheMetadata s) k = Some md"
  shows "fst (getFromCache now k s)
           = (if gt_number now (plus_number (timestamp md) (ttl md)) then None else Some v)"
  using assms by (simp add: getFromCache_def)



lemma oldestScan_none:
  "\<forall>km \<in> set ms. t \<le> lastAccess (snd km) \<Longrightarrow> fold (\<lambda>km acc. if lastAccess (snd km) < snd acc then (Some (fst km), lastAccess (snd km)) else acc) ms (ko, t) = (ko, t)"
  by (induction ms) auto

lemma evict_same_ms:
  "\<forall>km \<in> set (cacheMetadata s). now \<le> lastAccess (snd km) \<Longrightarrow> evictOldestCacheEntry now s = s"
  by (simp add: evictOldestCacheEntry_def oldestScan_def oldestScan_none)

lemma in_update_cases: "x \<in> set (AList.update k v al) \<Longrightarrow> x = (k, v) \<or> x \<in> set al"
  by (induction al) (auto split: if_splits)

lemma length_update: "length (AList.update k v al) = (if k \<in> fst ` set al then length al else Suc (length al))"
  by (induction al) auto

lemma oldestScan_fold:
  "fold (\<lambda>km acc. if lastAccess (snd km) < snd acc then (Some (fst km), lastAccess (snd km)) else acc) ms (ko, t) = (ko', t') \<Longrightarrow>
   t' \<le> t \<and> (\<forall>km \<in> set ms. t' \<le> lastAccess (snd km))
   \<and> ((ko' = ko \<and> t' = t) \<or> (\<exists>km \<in> set ms. ko' = Some (fst km) \<and> t' = lastAccess (snd km) \<and> t' < t))"
proof (induction ms arbitrary: ko t)
  case Nil
  then show ?case by simp
next
  case (Cons km ms)
  show ?case
  proof (cases "lastAccess (snd km) < t")
    case True
    with Cons.prems have "fold (\<lambda>km acc. if lastAccess (snd km) < snd acc then (Some (fst km), lastAccess (snd km)) else acc) ms (Some (fst km), lastAccess (snd km)) = (ko', t')"
      by simp
    from Cons.IH [OF this] True show ?thesis by auto
  next
    case False
    with Cons.prems have "fold (\<lambda>km acc. if lastAccess (snd km) < snd acc then (Some (fst km), lastAccess (snd km)) else acc) ms (ko, t) = (ko', t')"
      by simp
    from Cons.IH [OF this] False show ?thesis by auto
  qed
qed

lemma oldestScan_finds:
  assumes "km0 \<in> set ms" and "lastAccess (snd km0) < now"
  shows "\<exists>km \<in> set ms. fst (oldestScan now ms) = Some (fst km)
           \<and> (\<forall>km' \<in> set ms. lastAccess (snd km) \<le> lastAccess (snd km'))"
proof -
  obtain ko' t' where r: "oldestScan now ms = (ko', t')" by (cases "oldestScan now ms")
  from oldestScan_fold [OF r [unfolded oldestScan_def]]
  have le: "\<forall>km \<in> set ms. t' \<le> lastAccess (snd km)"
    and alt: "(ko' = None \<and> t' = now) \<or> (\<exists>km \<in> set ms. ko' = Some (fst km) \<and> t' = lastAccess (snd km) \<and> t' < now)"
    by blast+
  from le assms have "t' < now" by force
  with alt obtain km where "km \<in> set ms" "ko' = Some (fst km)" "t' = lastAccess (snd km)" by auto
  with le r show ?thesis by auto
qed

lemma length_delete_distinct:
  "distinct (map fst al) \<Longrightarrow> k \<in> fst ` set al \<Longrightarrow> Suc (length (AList.delete k al)) = length al"
  by (induction al) (auto simp add: AList.delete_id image_iff)

text \<open>
  When some entry was accessed before the current reading of the clock, the eviction
  removes exactly one entry, one whose \<^verbatim>\<open>lastAccess\<close> is the least.
\<close>

lemma evict_removes_least_recent:
  assumes inv: "cache_inv t s" and t: "t < now" and ne: "entries s \<noteq> []"
  obtains km where "km \<in> set (cacheMetadata s)"
    and "\<forall>km' \<in> set (cacheMetadata s). lastAccess (snd km) \<le> lastAccess (snd km')"
    and "evictOldestCacheEntry now s =
           s\<lparr> entries := AList.delete (fst km) (entries s),
              cacheMetadata := AList.delete (fst km) (cacheMetadata s) \<rparr>"
    and "Suc (length (entries (evictOldestCacheEntry now s))) = length (entries s)"
proof -
  from inv have keys: "map fst (entries s) = map fst (cacheMetadata s)"
    and d: "distinct (map fst (entries s))"
    and nonempty: "[] \<notin> set (map fst (entries s))"
    and old: "\<forall>km \<in> set (cacheMetadata s). lastAccess (snd km) \<le> t"
    unfolding cache_inv_def by blast+
  from keys ne have "cacheMetadata s \<noteq> []" by auto
  then obtain km0 where km0: "km0 \<in> set (cacheMetadata s)" by (cases "cacheMetadata s") auto
  with old t have "lastAccess (snd km0) < now" by force
  from oldestScan_finds [OF km0 this] obtain km where km: "km \<in> set (cacheMetadata s)"
    and f: "fst (oldestScan now (cacheMetadata s)) = Some (fst km)"
    and m: "\<forall>km' \<in> set (cacheMetadata s). lastAccess (snd km) \<le> lastAccess (snd km')"
    by blast
  from km have "fst km \<in> set (map fst (cacheMetadata s))" by simp
  with keys have k: "fst km \<in> set (map fst (entries s))" by simp
  with nonempty have kne: "fst km \<noteq> []" by metis
  have ev: "evictOldestCacheEntry now s =
               s\<lparr> entries := AList.delete (fst km) (entries s),
                  cacheMetadata := AList.delete (fst km) (cacheMetadata s) \<rparr>"
    using f kne by (simp add: evictOldestCacheEntry_def)
  from k have k': "fst km \<in> fst ` set (entries s)" by simp
  have "Suc (length (AList.delete (fst km) (entries s))) = length (entries s)"
    using d k' by (rule length_delete_distinct)
  then have "Suc (length (entries (evictOldestCacheEntry now s))) = length (entries s)"
    by (simp add: ev)
  with km m ev show thesis by (rule that)
qed

lemma set_delete_subset: "set (AList.delete k al) \<subseteq> set al"
  by (auto simp add: AList.delete_eq)

lemma cache_inv_delete:
  assumes "cache_inv t s"
  shows "cache_inv t (s\<lparr> entries := AList.delete k (entries s),
                         cacheMetadata := AList.delete k (cacheMetadata s) \<rparr>)"
proof -
  from assms have keys: "map fst (entries s) = map fst (cacheMetadata s)"
    and d: "distinct (map fst (entries s))"
    and nonempty: "[] \<notin> set (map fst (entries s))"
    and old: "\<forall>km \<in> set (cacheMetadata s). lastAccess (snd km) \<le> t"
    unfolding cache_inv_def by blast+
  have "map fst (AList.delete k (entries s)) = map fst (AList.delete k (cacheMetadata s))"
    by (simp only: AList.delete_keys keys)
  moreover have "distinct (map fst (AList.delete k (entries s)))"
    using d by (simp only: AList.delete_keys distinct_removeAll)
  moreover have "[] \<notin> set (map fst (AList.delete k (entries s)))"
    using nonempty by (simp add: AList.delete_keys)
  moreover have "\<forall>km \<in> set (AList.delete k (cacheMetadata s)). lastAccess (snd km) \<le> t"
    using old set_delete_subset [of k "cacheMetadata s"] by blast
  ultimately show ?thesis by (simp add: cache_inv_def)
qed

lemma cache_inv_update:
  assumes "cache_inv t s" and "t < now" and "k \<noteq> []" and "lastAccess md = now"
  shows "cache_inv now (s\<lparr> entries := AList.update k d (entries s),
                           cacheMetadata := AList.update k md (cacheMetadata s) \<rparr>)"
proof -
  from assms(1) have keys: "map fst (entries s) = map fst (cacheMetadata s)"
    and d: "distinct (map fst (entries s))"
    and nonempty: "[] \<notin> set (map fst (entries s))"
    and old: "\<forall>km \<in> set (cacheMetadata s). lastAccess (snd km) \<le> t"
    unfolding cache_inv_def by blast+
  have "map fst (AList.update k d (entries s)) = map fst (AList.update k md (cacheMetadata s))"
    by (simp only: AList.update_keys keys)
  moreover have "distinct (map fst (AList.update k d (entries s)))"
    using d by (rule AList.distinct_update)
  moreover have "[] \<notin> set (map fst (AList.update k d (entries s)))"
    using nonempty assms(3) by (simp add: AList.update_keys)
  moreover have "\<forall>km \<in> set (AList.update k md (cacheMetadata s)). lastAccess (snd km) \<le> now"
  proof
    fix km assume "km \<in> set (AList.update k md (cacheMetadata s))"
    then have "km = (k, md) \<or> km \<in> set (cacheMetadata s)" by (rule in_update_cases)
    with old assms(2,4) show "lastAccess (snd km) \<le> now" by force
  qed
  ultimately show ?thesis by (simp add: cache_inv_def)
qed

lemma updateCache_step:
  assumes en: "enableCache cfg" and inv: "cache_inv t s" and t: "t < now" and k: "k \<noteq> []"
    and cap: "0 < maxCacheSize cfg" and len: "length (entries s) \<le> maxCacheSize cfg"
  shows "cache_inv now (updateCache cfg now k d ot s)
       \<and> length (entries (updateCache cfg now k d ot s)) \<le> maxCacheSize cfg"
proof -
  define s1 where "s1 = (if length (entries s) \<ge> maxCacheSize cfg then evictOldestCacheEntry now s else s)"
  have s1: "cache_inv t s1 \<and> length (entries s1) < maxCacheSize cfg"
  proof (cases "length (entries s) \<ge> maxCacheSize cfg")
    case False
    then show ?thesis using inv by (simp add: s1_def)
  next
    case True
    with cap have ne: "entries s \<noteq> []" by auto
    from inv t ne obtain km :: "key \<times> metadata" where
      ev: "evictOldestCacheEntry now s =
               s\<lparr> entries := AList.delete (fst km) (entries s),
                  cacheMetadata := AList.delete (fst km) (cacheMetadata s) \<rparr>"
      and l: "Suc (length (entries (evictOldestCacheEntry now s))) = length (entries s)"
      by (rule evict_removes_least_recent)
    have "cache_inv t (evictOldestCacheEntry now s)"
      using inv by (rule cache_inv_delete [of t s "fst km", folded ev])
    with True l len show ?thesis by (simp add: s1_def)
  qed
  have u: "updateCache cfg now k d ot s =
      s1\<lparr> entries := AList.update k d (entries s1),
         cacheMetadata := AList.update k
           \<lparr> timestamp = now,
             ttl = times_number (case ot of None \<Rightarrow> cacheTTL cfg | Some x \<Rightarrow> if x = 0 then cacheTTL cfg else x) 1000,
             accessCount = 1, lastAccess = now \<rparr> (cacheMetadata s1) \<rparr>"
    using en by (simp add: updateCache_def s1_def Let_def)
  from s1 have i1: "cache_inv t s1" by simp
  have "cache_inv now (updateCache cfg now k d ot s)"
    unfolding u using i1 t k by (rule cache_inv_update) simp
  moreover have "length (entries (updateCache cfg now k d ot s)) \<le> maxCacheSize cfg"
    using s1 len by (auto simp add: u length_update)
  ultimately show ?thesis by simp
qed


lemma writes_Cons:
  "writes cfg (w # ws) s =
     writes cfg ws (updateCache cfg (fst w) (fst (snd w)) (fst (snd (snd w))) (snd (snd (snd w))) s)"
  by (simp add: writes_def split: prod.splits)

text \<open>
  When the clock advances from each write to the next, the cache never holds more than
  \<^verbatim>\<open>cacheSize\<close> entries.
\<close>

lemma capacity_when_clock_advances:
  assumes en: "enableCache cfg" and cap: "0 < maxCacheSize cfg"
  shows "cache_inv t0 s \<Longrightarrow> length (entries s) \<le> maxCacheSize cfg \<Longrightarrow>
    advancing t0 (map fst ws) \<Longrightarrow> \<forall>w \<in> set ws. fst (snd w) \<noteq> [] \<Longrightarrow>
    length (entries (writes cfg ws s)) \<le> maxCacheSize cfg"
proof (induction ws arbitrary: t0 s)
  case Nil
  then show ?case by (simp add: writes_def)
next
  case (Cons w ws)
  let ?s = "updateCache cfg (fst w) (fst (snd w)) (fst (snd (snd w))) (snd (snd (snd w))) s"
  from Cons.prems have t: "t0 < fst w" and adv: "advancing (fst w) (map fst ws)"
    and k: "fst (snd w) \<noteq> []" and ks: "\<forall>w \<in> set ws. fst (snd w) \<noteq> []"
    by simp_all
  from updateCache_step [OF en Cons.prems(1) t k cap Cons.prems(2)]
  have "cache_inv (fst w) ?s" and "length (entries ?s) \<le> maxCacheSize cfg"
    by blast+
  then have "length (entries (writes cfg ws ?s)) \<le> maxCacheSize cfg"
    using adv ks by (rule Cons.IH)
  then show ?case by (simp only: writes_Cons)
qed

lemma cache_inv_emptyCache: "cache_inv t emptyCache"
  by (simp add: cache_inv_def emptyCache_def)

lemma updateCache_same_ms:
  assumes "enableCache cfg" "fresh now s"
  shows "fresh now (updateCache cfg now k d ot s)"
    and "entries (updateCache cfg now k d ot s) = AList.update k d (entries s)"
  using assms
  by (auto simp add: updateCache_def Let_def fresh_def evict_same_ms dest!: in_update_cases)

lemma burst_Cons: "burst cfg now (k # ks) s = burst cfg now ks (updateCache cfg now k 0 None s)"
  by (simp add: burst_def)

lemma burst_same_ms:
  "enableCache cfg \<Longrightarrow> fresh now s \<Longrightarrow> distinct ks \<Longrightarrow> set ks \<inter> fst ` set (entries s) = {} \<Longrightarrow>
   length (entries (burst cfg now ks s)) = length (entries s) + length ks"
proof (induction ks arbitrary: s)
  case Nil
  then show ?case by (simp add: burst_def)
next
  case (Cons k ks)
  let ?s = "updateCache cfg now k 0 None s"
  have f: "fresh now ?s"
    using Cons.prems(1,2) by (rule updateCache_same_ms(1))
  have e: "entries ?s = AList.update k 0 (entries s)"
    using Cons.prems(1,2) by (rule updateCache_same_ms(2))
  have d: "set ks \<inter> fst ` set (entries ?s) = {}"
    using Cons.prems(3,4) by (auto simp add: e AList.dom_update)
  have dk: "distinct ks" using Cons.prems(3) by simp
  have "length (entries (burst cfg now ks ?s)) = length (entries ?s) + length ks"
    using Cons.prems(1) f dk d by (rule Cons.IH)
  moreover have "length (entries ?s) = Suc (length (entries s))"
    using Cons.prems(4) by (simp add: e length_update)
  ultimately show ?case by (simp add: burst_Cons)
qed

lemma burst_keys_distinct: "distinct (burst_keys n)"
proof -
  have "inj_on (\<lambda>i. replicate (Suc i) CHR ''k'') A" for A :: "nat set"
  proof (rule inj_onI)
    fix x y :: nat
    assume "replicate (Suc x) CHR ''k'' = replicate (Suc y) CHR ''k''"
    then have "length (replicate (Suc x) CHR ''k'') = length (replicate (Suc y) CHR ''k'')"
      by (rule arg_cong)
    then show "x = y" by simp
  qed
  then show ?thesis by (simp add: burst_keys_def distinct_map)
qed

lemma length_burst_keys: "length (burst_keys n) = n"
  by (simp add: burst_keys_def)

lemma fresh_emptyCache: "fresh now emptyCache"
  by (simp add: fresh_def emptyCache_def)

text \<open>
  Claim C3 (cache capacity) fails on a burst: \<^verbatim>\<open>evictOldestCacheEntry\<close> starts its scan
  from \<^verbatim>\<open>Date.now()\<close> and moves only to a strictly smaller \<^verbatim>\<open>lastAccess\<close>, so when every
  entry was written in the current millisecond nothing is evicted. With a capacity of 100,
  101 writes of distinct keys within one millisecond leave 101 entries.
\<close>

theorem burst_exceeds_capacity:
  "length (entries (burst burst_config 5 (burst_keys 101) emptyCache)) = 101
   \<and> maxCacheSize burst_config = 100"
proof -
  have "enableCache burst_config" by (simp add: burst_config_def)
  moreover have "set (burst_keys 101) \<inter> fst ` set (entries (emptyCache :: nat pkg_cache)) = {}"
    by (simp add: emptyCache_def)
  ultimately have "length (entries (burst burst_config 5 (burst_keys 101) emptyCache))
      = length (entries (emptyCache :: nat pkg_cache)) + length (burst_keys 101)"
    using fresh_emptyCache burst_keys_distinct by (intro burst_same_ms)
  then have "length (entries (burst burst_config 5 (burst_keys 101) emptyCache)) = 101"
    by (simp only: length_burst_keys) (simp add: emptyCache_def)
  moreover have "maxCacheSize burst_config = 100" by (simp add: burst_config_def)
  ultimately show ?thesis by (rule conjI)
qed

section \<open>EdgeCaseHandler: properties\<close>

lemma plainError_sel [simp]: "message (plainError m) = m" "retryAfterHeader (plainError m) = None"
  by (simp_all add: plainError_def)

lemma timeoutMessage_default: "timeoutMessage default_config = ''Operation timeout after 10000ms''"
  by (simp add: timeoutMessage_def default_config_def string_of_nat.simps digit_def)

lemmas classify_eval = classifyError_def toLowerCase_def toLowerChar_def Let_def

lemma classify_circuitOpen: "classifyError (plainError circuitOpenMessage) = UNKNOWN_ERROR"
  by (simp add: classify_eval circuitOpenMessage_def)

lemma classify_timeout_default:
  "classifyError (plainError ''Operation timeout after 10000ms'') = TIMEOUT_ERROR"
  by (simp add: classify_eval)

lemma classify_refused: "classifyError (plainError ''Connection refused'') = CONNECTION_ERROR"
  by (simp add: classify_eval)

lemmas exec_eval = executeWithErrorHandling.simps attempt_def circuitCheck_def raceOperation_def
  handleOperationFailure_def recordFailure_def handleConnectionError_def handleTimeoutError_def
  handleGenericError_def calculateBackoffDelay_def sleep_def timerDelay_def emit_def
  openCircuitBreaker_def
  onOperationSuccess_def classify_circuitOpen classify_timeout_default classify_refused
  newHandler_def noContext_def Let_def

lemma default_config_sel [simp]:
  "maxRetries default_config = 10" "retryDelay default_config = 1000"
  "circuitBreakerThreshold default_config = 5" "circuitBreakerTimeout default_config = 30000"
  "operationTimeout default_config = 10000"
  by (simp_all add: default_config_def)

text \<open>
  Claim C7 against the code. \<^verbatim>\<open>handleTimeoutError\<close> computes the increased timeout and
  stores it in \<^verbatim>\<open>context.timeout\<close>, but \<^verbatim>\<open>executeWithErrorHandling\<close> always races the
  operation against \<^verbatim>\<open>this.config.operationTimeout\<close>. With the default configuration, an
  operation that needs 12 seconds is raced against 10000 ms on the first attempt and on each
  of the three retries (not against 15000, 22500 and 33750 ms), after waits of 1000, 2000
  and 3000 ms, and the call ends with the timeout error.
\<close>

theorem timeout_retries_keep_operationTimeout:
  "executeWithErrorHandling default_config slow_env noContext (newHandler 0) =
     (Inl (plainError ''Timeout retries exceeded: Operation timeout after 10000ms''),
      \<lparr> circuitBreakerState = CLOSED, failureCount = 4, lastFailureTime = 46000, clock = 46000,
        invocations = 4, draws = 0, timers = [10000, 10000, 10000, 10000],
        slept = [1000, 2000, 3000],
        emitted = [OperationFailed TIMEOUT_ERROR 0, OperationFailed TIMEOUT_ERROR 1,
                   OperationFailed TIMEOUT_ERROR 2, OperationFailed TIMEOUT_ERROR 3] \<rparr>)"
  by (simp add: exec_eval slow_env_def timeoutMessage_default)

text \<open>
  Claim C1 against the code. The rejection of an open breaker is thrown inside the
  \<^verbatim>\<open>try\<close> block, so the \<^verbatim>\<open>catch\<close> hands it to \<^verbatim>\<open>handleOperationFailure\<close> like a failure
  of the operation: it is classified as unknown and retried with backoff. With the default
  configuration, a call made right after the breaker opened sleeps 1000, 2000, 4000, 8000 and
  16000 ms and raises the failure count six times before the rejection reaches the caller,
  31 seconds later; the operation is not invoked.
\<close>

theorem open_circuit_rejection_is_retried:
  "circuitBreakerState open_handler = OPEN
   \<and> clock open_handler - lastFailureTime open_handler < of_nat (circuitBreakerTimeout default_config)
   \<and> executeWithErrorHandling default_config ok_env noContext open_handler =
     (Inl (plainError circuitOpenMessage),
      \<lparr> circuitBreakerState = OPEN, failureCount = 11, lastFailureTime = 131000, clock = 131000,
        invocations = 0, draws = 5, timers = [],
        slept = [1000, 2000, 4000, 8000, 16000],
        emitted = [OperationFailed UNKNOWN_ERROR 0, CircuitBreakerOpened 6,
                   OperationFailed UNKNOWN_ERROR 1, CircuitBreakerOpened 7,
                   OperationFailed UNKNOWN_ERROR 2, CircuitBreakerOpened 8,
                   OperationFailed UNKNOWN_ERROR 3, CircuitBreakerOpened 9,
                   OperationFailed UNKNOWN_ERROR 4, CircuitBreakerOpened 10,
                   OperationFailed UNKNOWN_ERROR 5, CircuitBreakerOpened 11] \<rparr>)"
  by (simp add: exec_eval ok_env_def open_handler_def)

text \<open>
  With a breaker timeout shorter than the first backoff delay, the retry of the rejection
  finds the timeout elapsed and invokes the operation within the same call.
\<close>

lemma open_circuit_short_timeout_invokes:
  "executeWithErrorHandling (default_config \<lparr> circuitBreakerTimeout := 500 \<rparr>) ok_env noContext open_handler =
     (Inr 42,
      \<lparr> circuitBreakerState = CLOSED, failureCount = 0, lastFailureTime = 100000, clock = 101010,
        invocations = 1, draws = 1, timers = [10000], slept = [1000],
        emitted = [OperationFailed UNKNOWN_ERROR 0, CircuitBreakerOpened 6, OperationSuccess] \<rparr>)"
  by (simp add: exec_eval ok_env_def open_handler_def default_config_def)







lemma sleep_fields [simp]:
  "invocations (sleep ms s) = invocations s"
  "failureCount (sleep ms s) = failureCount s"
  "circuitBreakerState (sleep ms s) = circuitBreakerState s"
  "lastFailureTime (sleep ms s) = lastFailureTime s"
  "clock (sleep ms s) = clock s + timerDelay ms"
  by (simp_all add: sleep_def)

lemma calculateBackoffDelay_fields [simp]:
  "invocations (snd (calculateBackoffDelay cfg env r s)) = invocations s"
  "failureCount (snd (calculateBackoffDelay cfg env r s)) = failureCount s"
  "circuitBreakerState (snd (calculateBackoffDelay cfg env r s)) = circuitBreakerState s"
  "lastFailureTime (snd (calculateBackoffDelay cfg env r s)) = lastFailureTime s"
  "clock (snd (calculateBackoffDelay cfg env r s)) = clock s"
  by (simp_all add: calculateBackoffDelay_def Let_def)












end
